theory Spec2Isabelle
  imports Main "HOL-Library.AList" "HOL-Library.Sublist"
begin

section \<open>Data model of \<^verbatim>\<open>Ignitor/index.ts\<close>\<close>

text \<open>
  A thrown JavaScript error object: its message, the HTTP status an \<^verbatim>\<open>Exception\<close> of
  \<^verbatim>\<open>@adonisjs/utils\<close> carries, and the \<^verbatim>\<open>code\<close> property (\<open>None\<close> when the error has
  no \<^verbatim>\<open>code\<close>).
\<close>

datatype js_error = JsError (err_message: string) (err_status: "nat option") (err_code: "string option")

text \<open>
  \<^verbatim>\<open>type PreloadNode = { file: string, intent: string, optional: boolean }\<close>, as it is read
  from the JSON file: a key the file leaves out reads as \<^verbatim>\<open>undefined\<close>, which is \<open>None\<close>.
\<close>

record PreloadNode =
  node_file :: string
  node_intent :: "string option"
  node_optional :: "bool option"

text \<open>
  \<^verbatim>\<open>type RcFileNode\<close>: the content of \<^verbatim>\<open>.adonisrc.json\<close>. Objects are association lists
  (\<open>js_get\<close> and \<open>js_entries\<close> below read them); a key the file leaves out is \<open>None\<close>.
\<close>

record RcFileNode =
  rc_typescript :: "bool option"
  rc_preloads :: "PreloadNode list option"
  rc_autoloads :: "(string \<times> string) list option"
  rc_directories :: "(string \<times> string) list option"

text \<open>\<^verbatim>\<open>o[k]\<close> of an object held as an association list.\<close>

definition js_get :: "(string \<times> 'v) list \<Rightarrow> string \<Rightarrow> 'v option" where
  "js_get obj k = map_of obj k"

text \<open>
  The value of an export of the \<^verbatim>\<open>start/app\<close> module: one of JavaScript's falsy values,
  or a value of the declared shape, which is an array or an object and so truthy
  (also when it is empty).
\<close>

datatype 'a js_export = Undefined | Null | JFalse | JZero | JEmptyString | Present 'a

fun truthy :: "'a js_export \<Rightarrow> bool" where
  "truthy (Present v) = True"
| "truthy e = False"

record AppExports =
  providers :: "string list js_export"
  aceProviders :: "string list js_export"
  commands :: "string list js_export"
  aliases :: "(string \<times> string) list option"

text \<open>\<^verbatim>\<open>appExports[prop]\<close> for the three names \<^verbatim>\<open>_loadAppFile\<close> looks up.\<close>

definition export_prop :: "AppExports \<Rightarrow> string \<Rightarrow> string list js_export" where
  "export_prop a prop =
     (if prop = ''providers'' then providers a
      else if prop = ''aceProviders'' then aceProviders a
      else if prop = ''commands'' then commands a
      else Undefined)"

text \<open>\<^verbatim>\<open>const DEFAULTS: RcFileNode\<close>.\<close>

definition DEFAULTS_typescript :: bool where
  "DEFAULTS_typescript = False"

definition DEFAULTS_autoloads :: "(string \<times> string) list" where
  "DEFAULTS_autoloads = [(''App'', ''./app'')]"

definition DEFAULTS_preloads :: "PreloadNode list" where
  "DEFAULTS_preloads = []"

definition DEFAULTS_directories :: "(string \<times> string) list" where
  "DEFAULTS_directories =
     [(''config'', ''./config''),
      (''public'', ''./public''),
      (''database'', ''./database''),
      (''migrations'', ''./database/migrations''),
      (''seeds'', ''./database/seeds''),
      (''resources'', ''./resources''),
      (''views'', ''./resources/views''),
      (''tmp'', ''./tmp''),
      (''start'', ''./start'')]"

section \<open>The container, the events and the world outside\<close>

text \<open>
  Modelled from the spec: the \<^verbatim>\<open>Ioc\<close> container of \<^verbatim>\<open>@adonisjs/fold\<close>, which is not in
  the source tree. The spec gives its interface (\<^verbatim>\<open>singleton(name, factory)\<close>,
  \<^verbatim>\<open>alias(name, alias)\<close>, \<^verbatim>\<open>autoload(path, alias)\<close>, a constructor taking the compiled-mode
  flag) and says that bindings are appended and that an alias written later replaces
  the one written earlier under the same name.
\<close>

record ioc =
  ioc_typescript :: "bool option"
  ioc_singletons :: "string list"
  ioc_aliases :: "(string \<times> string) list"
  ioc_autoloads :: "(string \<times> string) list"

definition new_Ioc :: "bool option \<Rightarrow> ioc" where
  "new_Ioc ts = \<lparr>ioc_typescript = ts, ioc_singletons = [], ioc_aliases = [], ioc_autoloads = []\<rparr>"

definition ioc_singleton :: "string \<Rightarrow> ioc \<Rightarrow> ioc" where
  "ioc_singleton name c = c\<lparr>ioc_singletons := ioc_singletons c @ [name]\<rparr>"

definition ioc_alias :: "string \<Rightarrow> string \<Rightarrow> ioc \<Rightarrow> ioc" where
  "ioc_alias name alias c = c\<lparr>ioc_aliases := AList.update alias name (ioc_aliases c)\<rparr>"

definition ioc_autoload :: "string \<Rightarrow> string \<Rightarrow> ioc \<Rightarrow> ioc" where
  "ioc_autoload path alias c = c\<lparr>ioc_autoloads := AList.update alias path (ioc_autoloads c)\<rparr>"

text \<open>What the bootstrap does to the outside, in the order it does it.\<close>

datatype event =
    TsRequire string "bool option"
  | NewIoc "bool option"
  | IocSingleton string
  | IocAlias string string
  | IocAutoload string string
  | UseProviders "string list"
  | ProviderRegister string
  | ProviderBoot string
  | IocUse string
  | RouterCommit
  | ServerOptimize
  | HandleBind
  | ServerCallback
  | CreateServer
  | EnvGet string
  | ServerListen "string option" "string option"
  | ConsoleLog js_error
  | ProcessExit nat

text \<open>The value kept in \<^verbatim>\<open>this.server\<close>: what the override returned, or node's own server.\<close>

datatype transport = FromCallback string | NodeServer

text \<open>The bound \<^verbatim>\<open>server.handle\<close> that is handed to the transport.\<close>

datatype handler = BoundHandle

text \<open>
  The collaborators outside the source tree, as parameters: \<^verbatim>\<open>path.join\<close>; \<^verbatim>\<open>tsRequire\<close>
  (its result is \<^verbatim>\<open>any\<close>: one loader for each type a call site casts it to); the
  \<^verbatim>\<open>register\<close> and \<^verbatim>\<open>boot\<close> hooks of a provider, which may change the container or
  throw; \<^verbatim>\<open>ioc.use\<close> (\<open>Some e\<close> when the lookup throws); the router, the server, the
  environment and the transport's \<^verbatim>\<open>listen\<close>. \<open>file_exists\<close> says which module files are
  on disk; the code never asks, it sees only what \<^verbatim>\<open>tsRequire\<close> returns or throws.
\<close>

record world =
  join :: "string list \<Rightarrow> string"
  file_exists :: "string \<Rightarrow> bool"
  tsRequire_rc :: "string \<Rightarrow> bool option \<Rightarrow> js_error + RcFileNode"
  tsRequire_app :: "string \<Rightarrow> bool option \<Rightarrow> js_error + AppExports"
  tsRequire_script :: "string \<Rightarrow> bool option \<Rightarrow> js_error + unit"
  provider_register :: "string \<Rightarrow> ioc \<Rightarrow> js_error + ioc"
  provider_boot :: "string \<Rightarrow> ioc \<Rightarrow> js_error + ioc"
  ioc_use :: "ioc \<Rightarrow> string \<Rightarrow> js_error option"
  router_commit :: "js_error option"
  server_optimize :: "js_error option"
  env_get :: "string \<Rightarrow> string option"
  server_listen :: "transport \<Rightarrow> string option \<Rightarrow> string option \<Rightarrow> js_error option"

text \<open>
  \<^verbatim>\<open>class Ignitor\<close>: its fields, and the events so far. A field the constructor leaves
  \<^verbatim>\<open>undefined\<close> is \<open>None\<close> where the code reads it before it is assigned
  (\<open>typescript\<close>, \<open>run_intent\<close>, \<open>server\<close>), and empty otherwise.
\<close>

record ignitor =
  appRoot :: string
  directories :: "(string \<times> string) list"
  autoloads :: "(string \<times> string) list"
  typescript :: "bool option"
  ioc :: ioc
  preloads :: "PreloadNode list"
  server :: "transport option"
  run_intent :: "string option"
  trace :: "event list"

definition Ignitor :: "string \<Rightarrow> ignitor" where
  "Ignitor root =
     \<lparr>appRoot = root, directories = [], autoloads = [], typescript = None,
      ioc = new_Ioc None, preloads = [], server = None, run_intent = None, trace = []\<rparr>"

definition emit :: "event \<Rightarrow> ignitor \<Rightarrow> ignitor" where
  "emit e s = s\<lparr>trace := trace s @ [e]\<rparr>"

text \<open>
  The pairs \<^verbatim>\<open>Object.keys(o).forEach((k) => ... o[k] ...)\<close> visits: each key once, with
  the value the object holds for it.
\<close>

fun js_entries :: "(string \<times> 'v) list \<Rightarrow> (string \<times> 'v) list" where
  "js_entries [] = []"
| "js_entries ((k, v) # ps) = (k, v) # js_entries (filter (\<lambda>p. fst p \<noteq> k) ps)"

section \<open>The operations\<close>

text \<open>
  \<^verbatim>\<open>_require (filePath, optional = false)\<close>: the default applies when the argument is
  \<^verbatim>\<open>undefined\<close>. \<open>Inr None\<close> is the \<^verbatim>\<open>null\<close> of a swallowed miss.
\<close>

definition require ::
  "(string \<Rightarrow> bool option \<Rightarrow> js_error + 'a) \<Rightarrow> string \<Rightarrow> bool option \<Rightarrow> ignitor
     \<Rightarrow> (js_error + 'a option) \<times> ignitor" where
  "require tsRequire filePath opt s =
     (let optional = (case opt of None \<Rightarrow> False | Some b \<Rightarrow> b);
          s' = emit (TsRequire filePath (typescript s)) s
      in case tsRequire filePath (typescript s) of
           Inr m \<Rightarrow> (Inr (Some m), s')
         | Inl error \<Rightarrow>
             if err_code error \<in> set [Some ''MODULE_NOT_FOUND'', Some ''ENOENT''] \<and> optional
             then (Inr None, s')
             else (Inl error, s'))"

text \<open>
  Modelled from the spec: \<^verbatim>\<open>merge\<close> of \<^verbatim>\<open>lodash\<close>, which is not in the source tree, on
  objects whose values are strings: every key of a source is written over the
  destination, sources from left to right, and a source that is \<^verbatim>\<open>undefined\<close> is skipped.
\<close>

definition lodash_assign :: "(string \<times> string) list \<Rightarrow> (string \<times> string) list \<Rightarrow> (string \<times> string) list" where
  "lodash_assign dst src = fold (\<lambda>(k, v) d. AList.update k v d) (js_entries src) dst"

definition lodash_merge ::
  "(string \<times> string) list \<Rightarrow> (string \<times> string) list option list \<Rightarrow> (string \<times> string) list" where
  "lodash_merge obj sources =
     fold (\<lambda>src d. case src of None \<Rightarrow> d | Some o' \<Rightarrow> lodash_assign d o') sources obj"

definition empty_rc :: RcFileNode where
  "empty_rc = \<lparr>rc_typescript = None, rc_preloads = None, rc_autoloads = None, rc_directories = None\<rparr>"

definition loadRcFile :: "world \<Rightarrow> ignitor \<Rightarrow> (js_error + unit) \<times> ignitor" where
  "loadRcFile w s =
     (case require (tsRequire_rc w) (join w [appRoot s, ''.adonisrc.json'']) (Some True) s of
        (Inl e, s1) \<Rightarrow> (Inl e, s1)
      | (Inr r, s1) \<Rightarrow>
          (let rcFile = (case r of None \<Rightarrow> empty_rc | Some f \<Rightarrow> f)
           in (Inr (),
               s1\<lparr>directories := lodash_merge [] [Some DEFAULTS_directories, rc_directories rcFile],
                  autoloads := (case rc_autoloads rcFile of None \<Rightarrow> DEFAULTS_autoloads | Some a \<Rightarrow> a),
                  typescript := Some (case rc_typescript rcFile of
                                        None \<Rightarrow> DEFAULTS_typescript
                                      | Some b \<Rightarrow> b \<or> DEFAULTS_typescript),
                  preloads := (case rc_preloads rcFile of None \<Rightarrow> [] | Some ps \<Rightarrow> ps)\<rparr>)))"

definition TypeError :: js_error where
  "TypeError = JsError ''TypeError'' None None"

definition requiredExports :: "string list" where
  "requiredExports = [''providers'', ''aceProviders'', ''commands'']"

text \<open>
  Modelled from the spec: the \<^verbatim>\<open>Exception\<close> class of \<^verbatim>\<open>@adonisjs/utils\<close>, which is not in
  the source tree. \<^verbatim>\<open>new Exception(message, status, code)\<close> is an error that carries the
  status and the code, and whose message is the code, a colon and a space, and then the
  message that was passed.
\<close>

definition Exception :: "string \<Rightarrow> nat \<Rightarrow> string \<Rightarrow> js_error" where
  "Exception message status code = JsError (code @ '': '' @ message) (Some status) (Some code)"

text \<open>
  The exception \<^verbatim>\<open>_loadAppFile\<close> throws for the export \<open>prop\<close>; the message passed is the
  template string of the source, where \<open>CHR 0x60\<close> is the backquote.
\<close>

definition missing_export :: "string \<Rightarrow> string \<Rightarrow> js_error" where
  "missing_export prop start =
     Exception
       (''export '' @ [CHR 0x60] @ prop @ [CHR 0x60] @ '' from '' @ [CHR 0x60] @ start @ ''/app''
          @ [CHR 0x60] @ '' file'')
       500 ''E_MISSING_APP_ESSENTIALS''"

text \<open>The \<^verbatim>\<open>requiredExports.forEach\<close> of \<^verbatim>\<open>_loadAppFile\<close>: the first falsy export throws.\<close>

fun validate_exports :: "string \<Rightarrow> AppExports \<Rightarrow> string list \<Rightarrow> js_error option" where
  "validate_exports start appExports [] = None"
| "validate_exports start appExports (prop # props) =
     (if \<not> truthy (export_prop appExports prop) then Some (missing_export prop start)
      else validate_exports start appExports props)"

text \<open>
  \<^verbatim>\<open>_loadAppFile\<close>. \<^verbatim>\<open>path.join\<close> throws a \<^verbatim>\<open>TypeError\<close> on an argument that is not a
  string, and so does a property read on \<^verbatim>\<open>null\<close>.
\<close>

definition loadAppFile :: "world \<Rightarrow> ignitor \<Rightarrow> (js_error + AppExports) \<times> ignitor" where
  "loadAppFile w s =
     (case js_get (directories s) ''start'' of
        None \<Rightarrow> (Inl TypeError, s)
      | Some start \<Rightarrow>
          (case require (tsRequire_app w) (join w [appRoot s, start, ''app'']) None s of
             (Inl e, s1) \<Rightarrow> (Inl e, s1)
           | (Inr None, s1) \<Rightarrow> (Inl TypeError, s1)
           | (Inr (Some appExports), s1) \<Rightarrow>
               (case validate_exports start appExports requiredExports of
                  Some e \<Rightarrow> (Inl e, s1)
                | None \<Rightarrow> (Inr appExports, s1))))"

definition instantiateIoCContainer :: "ignitor \<Rightarrow> ignitor" where
  "instantiateIoCContainer s = (emit (NewIoc (typescript s)) s)\<lparr>ioc := new_Ioc (typescript s)\<rparr>"

definition registerAutoloads :: "world \<Rightarrow> ignitor \<Rightarrow> ignitor" where
  "registerAutoloads w s =
     fold (\<lambda>(alias, dir) s'.
             (emit (IocAutoload (join w [appRoot s', dir]) alias) s')
               \<lparr>ioc := ioc_autoload (join w [appRoot s', dir]) alias (ioc s')\<rparr>)
       (js_entries (autoloads s)) s"

text \<open>
  Modelled from the spec: the \<^verbatim>\<open>Registrar\<close> of \<^verbatim>\<open>@adonisjs/fold\<close>, which is not in the
  source tree. \<^verbatim>\<open>useProviders(list).register()\<close> registers each provider of the list with
  the container in list order and \<^verbatim>\<open>boot\<close> boots them in the same order; a hook that
  throws aborts the rest.
\<close>

fun registrar_register :: "world \<Rightarrow> string list \<Rightarrow> ignitor \<Rightarrow> (js_error + unit) \<times> ignitor" where
  "registrar_register w [] s = (Inr (), s)"
| "registrar_register w (p # ps) s =
     (case provider_register w p (ioc s) of
        Inl e \<Rightarrow> (Inl e, emit (ProviderRegister p) s)
      | Inr c \<Rightarrow> registrar_register w ps ((emit (ProviderRegister p) s)\<lparr>ioc := c\<rparr>))"

fun registrar_boot :: "world \<Rightarrow> string list \<Rightarrow> ignitor \<Rightarrow> (js_error + unit) \<times> ignitor" where
  "registrar_boot w [] s = (Inr (), s)"
| "registrar_boot w (p # ps) s =
     (case provider_boot w p (ioc s) of
        Inl e \<Rightarrow> (Inl e, emit (ProviderBoot p) s)
      | Inr c \<Rightarrow> registrar_boot w ps ((emit (ProviderBoot p) s)\<lparr>ioc := c\<rparr>))"

text \<open>The \<^verbatim>\<open>Object.keys(aliases).forEach\<close> of \<^verbatim>\<open>_bootProviders\<close>.\<close>

definition apply_aliases :: "(string \<times> string) list \<Rightarrow> ignitor \<Rightarrow> ignitor" where
  "apply_aliases al s =
     fold (\<lambda>(alias, name) s'. (emit (IocAlias name alias) s')\<lparr>ioc := ioc_alias name alias (ioc s')\<rparr>)
       (js_entries al) s"

text \<open>
  \<^verbatim>\<open>const list = this._intent === 'ace' ? providers.concat(aceProviders) : providers\<close>.
  After \<^verbatim>\<open>_loadAppFile\<close> both exports are truthy; a falsy one has no \<^verbatim>\<open>concat\<close>.
\<close>

definition provider_list :: "string option \<Rightarrow> AppExports \<Rightarrow> js_error + string list" where
  "provider_list i app =
     (case providers app of
        Present ps \<Rightarrow>
          (if i = Some ''ace''
           then (case aceProviders app of Present as \<Rightarrow> Inr (ps @ as) | _ \<Rightarrow> Inl TypeError)
           else Inr ps)
      | _ \<Rightarrow> Inl TypeError)"

definition bootProviders :: "world \<Rightarrow> ignitor \<Rightarrow> (js_error + unit) \<times> ignitor" where
  "bootProviders w s =
     (case loadAppFile w s of
        (Inl e, s1) \<Rightarrow> (Inl e, s1)
      | (Inr app, s1) \<Rightarrow>
          (case provider_list (run_intent s1) app of
             Inl e \<Rightarrow> (Inl e, s1)
           | Inr list \<Rightarrow>
               (case registrar_register w list (emit (UseProviders list) s1) of
                  (Inl e, s2) \<Rightarrow> (Inl e, s2)
                | (Inr u, s2) \<Rightarrow>
                    registrar_boot w list
                      (case aliases app of None \<Rightarrow> s2 | Some al \<Rightarrow> apply_aliases al s2))))"

definition bindHelpers :: "ignitor \<Rightarrow> ignitor" where
  "bindHelpers s =
     (let s1 = (emit (IocSingleton ''Adonis/Src/Helpers'') s)
                 \<lparr>ioc := ioc_singleton ''Adonis/Src/Helpers'' (ioc s)\<rparr>
      in (emit (IocAlias ''Adonis/Src/Helpers'' ''Helpers'') s1)
           \<lparr>ioc := ioc_alias ''Adonis/Src/Helpers'' ''Helpers'' (ioc s1)\<rparr>)"

text \<open>\<^verbatim>\<open>!node.intent\<close>: \<^verbatim>\<open>undefined\<close> and the empty string are falsy.\<close>

definition falsy_string :: "string option \<Rightarrow> bool" where
  "falsy_string v = (case v of None \<Rightarrow> True | Some str \<Rightarrow> str = [])"

definition preload_filter :: "string option \<Rightarrow> PreloadNode \<Rightarrow> bool" where
  "preload_filter i node = (node_intent node = i \<or> falsy_string (node_intent node))"

fun preload_each :: "world \<Rightarrow> PreloadNode list \<Rightarrow> ignitor \<Rightarrow> (js_error + unit) \<times> ignitor" where
  "preload_each w [] s = (Inr (), s)"
| "preload_each w (node # nodes) s =
     (case require (tsRequire_script w) (join w [appRoot s, node_file node]) (node_optional node) s of
        (Inl e, s1) \<Rightarrow> (Inl e, s1)
      | (Inr m, s1) \<Rightarrow> preload_each w nodes s1)"

definition preloadFiles :: "world \<Rightarrow> ignitor \<Rightarrow> (js_error + unit) \<times> ignitor" where
  "preloadFiles w s = preload_each w (filter (preload_filter (run_intent s)) (preloads s)) s"

definition bootstrap :: "world \<Rightarrow> ignitor \<Rightarrow> (js_error + unit) \<times> ignitor" where
  "bootstrap w s =
     (case loadRcFile w s of
        (Inl e, s1) \<Rightarrow> (Inl e, s1)
      | (Inr u, s1) \<Rightarrow>
          (case bootProviders w (bindHelpers (instantiateIoCContainer s1)) of
             (Inl e, s2) \<Rightarrow> (Inl e, s2)
           | (Inr u', s2) \<Rightarrow> preloadFiles w (registerAutoloads w s2)))"

text \<open>\<^verbatim>\<open>this.ioc.use(name)\<close>, which may throw.\<close>

definition use :: "world \<Rightarrow> string \<Rightarrow> ignitor \<Rightarrow> (js_error + unit) \<times> ignitor" where
  "use w name s =
     (case ioc_use w (ioc s) name of
        Some e \<Rightarrow> (Inl e, emit (IocUse name) s)
      | None \<Rightarrow> (Inr (), emit (IocUse name) s))"

definition createHttp ::
  "world \<Rightarrow> (handler \<Rightarrow> js_error + string) option \<Rightarrow> ignitor \<Rightarrow> (js_error + unit) \<times> ignitor" where
  "createHttp w serverCallback s =
     (case use w ''Adonis/Src/Server'' s of
        (Inl e, s1) \<Rightarrow> (Inl e, s1)
      | (Inr u1, s1) \<Rightarrow>
     (case use w ''Adonis/Src/Route'' s1 of
        (Inl e, s2) \<Rightarrow> (Inl e, s2)
      | (Inr u2, s2) \<Rightarrow>
     (case router_commit w of
        Some e \<Rightarrow> (Inl e, emit RouterCommit s2)
      | None \<Rightarrow>
     (case server_optimize w of
        Some e \<Rightarrow> (Inl e, emit ServerOptimize (emit RouterCommit s2))
      | None \<Rightarrow>
          (let s3 = emit HandleBind (emit ServerOptimize (emit RouterCommit s2))
           in case serverCallback of
                Some cb \<Rightarrow>
                  (case cb BoundHandle of
                     Inl e \<Rightarrow> (Inl e, emit ServerCallback s3)
                   | Inr t \<Rightarrow> (Inr (), (emit ServerCallback s3)\<lparr>server := Some (FromCallback t)\<rparr>))
              | None \<Rightarrow>
                  (Inr (), (emit CreateServer (emit HandleBind s3))\<lparr>server := Some NodeServer\<rparr>))))))"

text \<open>\<^verbatim>\<open>_listen (port, host)\<close>; calling \<^verbatim>\<open>listen\<close> on an absent server is a \<^verbatim>\<open>TypeError\<close>.\<close>

definition listen :: "world \<Rightarrow> string option \<Rightarrow> string option \<Rightarrow> ignitor \<Rightarrow> (js_error + unit) \<times> ignitor" where
  "listen w port host s =
     (case server s of
        None \<Rightarrow> (Inl TypeError, s)
      | Some t \<Rightarrow>
          (case server_listen w t port host of
             Some e \<Rightarrow> (Inl e, emit (ServerListen port host) s)
           | None \<Rightarrow> (Inr (), emit (ServerListen port host) s)))"

text \<open>The \<^verbatim>\<open>try\<close> block of \<^verbatim>\<open>startHttpServer\<close>.\<close>

definition start_body ::
  "world \<Rightarrow> (handler \<Rightarrow> js_error + string) option \<Rightarrow> ignitor \<Rightarrow> (js_error + unit) \<times> ignitor" where
  "start_body w serverCallback s =
     (case bootstrap w s of
        (Inl e, s1) \<Rightarrow> (Inl e, s1)
      | (Inr u, s1) \<Rightarrow>
     (case createHttp w serverCallback s1 of
        (Inl e, s2) \<Rightarrow> (Inl e, s2)
      | (Inr u', s2) \<Rightarrow>
     (case use w ''Adonis/Src/Env'' s2 of
        (Inl e, s3) \<Rightarrow> (Inl e, s3)
      | (Inr u'', s3) \<Rightarrow>
          listen w (env_get w ''PORT'') (env_get w ''HOST'')
            (emit (EnvGet ''HOST'') (emit (EnvGet ''PORT'') s3)))))"

definition startHttpServer ::
  "world \<Rightarrow> (handler \<Rightarrow> js_error + string) option \<Rightarrow> ignitor \<Rightarrow> ignitor" where
  "startHttpServer w serverCallback s =
     (case start_body w serverCallback (s\<lparr>run_intent := Some ''http''\<rparr>) of
        (Inl error, s1) \<Rightarrow> emit (ProcessExit 1) (emit (ConsoleLog error) s1)
      | (Inr u, s1) \<Rightarrow> s1)"

section \<open>A sample project\<close>

text \<open>
  A world to run the bootstrap in: an application rooted at \<^verbatim>\<open>/app\<close> whose
  \<^verbatim>\<open>start/app\<close> and \<^verbatim>\<open>start/routes\<close> modules load, whose \<^verbatim>\<open>start/broken\<close> file has a
  syntax error, whose \<^verbatim>\<open>start/mailer\<close> file is there but requires a package that is not
  installed, and which has no other file; whose providers bind themselves and alias
  themselves as \<^verbatim>\<open>Route\<close> when they register, and whose environment sets \<^verbatim>\<open>PORT\<close> and
  \<^verbatim>\<open>HOST\<close>.
\<close>

definition strip_dot :: "string \<Rightarrow> string" where
  "strip_dot p = (case p of CHR ''.'' # CHR ''/'' # r \<Rightarrow> r | _ \<Rightarrow> p)"

definition sample_join :: "string list \<Rightarrow> string" where
  "sample_join parts = foldr (\<lambda>p acc. if acc = [] then p else p @ ''/'' @ strip_dot acc) parts []"

definition ENOENT :: js_error where
  "ENOENT = JsError ''no such file or directory'' None (Some ''ENOENT'')"

definition SyntaxError :: js_error where
  "SyntaxError = JsError ''Unexpected token'' None None"

definition MODULE_NOT_FOUND :: js_error where
  "MODULE_NOT_FOUND = JsError ''Cannot find module nodemailer'' None (Some ''MODULE_NOT_FOUND'')"

definition sample_world :: "(js_error + RcFileNode) \<Rightarrow> AppExports \<Rightarrow> world" where
  "sample_world rc app =
     \<lparr>join = sample_join,
      file_exists =
        (\<lambda>p. p \<in> set [''/app/start/app'', ''/app/start/routes'', ''/app/start/broken'',
                        ''/app/start/mailer'']),
      tsRequire_rc = (\<lambda>p ts. rc),
      tsRequire_app = (\<lambda>p ts. if p = ''/app/start/app'' then Inr app else Inl ENOENT),
      tsRequire_script =
        (\<lambda>p ts. if p = ''/app/start/routes'' then Inr ()
                 else if p = ''/app/start/broken'' then Inl SyntaxError
                 else if p = ''/app/start/mailer'' then Inl MODULE_NOT_FOUND
                 else Inl ENOENT),
      provider_register = (\<lambda>p c. Inr (ioc_alias p ''Route'' (ioc_singleton p c))),
      provider_boot = (\<lambda>p c. Inr c),
      ioc_use = (\<lambda>c n. None),
      router_commit = None,
      server_optimize = None,
      env_get = (\<lambda>k. if k = ''PORT'' then Some ''3333''
                       else if k = ''HOST'' then Some ''127.0.0.1'' else None),
      server_listen = (\<lambda>t p h. None)\<rparr>"

definition sample_app :: AppExports where
  "sample_app =
     \<lparr>providers = Present [''A'', ''B''], aceProviders = Present [''C'', ''A''],
      commands = Present [], aliases = Some [(''Route'', ''My/Route'')]\<rparr>"

definition sample_rc :: RcFileNode where
  "sample_rc =
     \<lparr>rc_typescript = Some True,
      rc_preloads =
        Some [\<lparr>node_file = ''start/routes'', node_intent = None, node_optional = None\<rparr>,
              \<lparr>node_file = ''start/ace'', node_intent = Some ''ace'', node_optional = Some False\<rparr>,
              \<lparr>node_file = ''start/kernel'', node_intent = Some ''http'', node_optional = Some True\<rparr>],
      rc_autoloads = Some [(''Lib'', ''./lib'')],
      rc_directories = Some [(''tmp'', ''./temp'')]\<rparr>"


text \<open>The same project without a configuration file, right before the providers.\<close>

definition sample_ready :: ignitor where
  "sample_ready =
     (Ignitor ''/app'')
       \<lparr>directories := DEFAULTS_directories, autoloads := DEFAULTS_autoloads,
        typescript := Some False, run_intent := Some ''http''\<rparr>"

section \<open>What a run is expected to show\<close>

text \<open>The events of applying an alias map and of registering an autoload map.\<close>

definition alias_events :: "(string \<times> string) list \<Rightarrow> event list" where
  "alias_events al = map (\<lambda>(alias, name). IocAlias name alias) (js_entries al)"

definition autoload_events :: "world \<Rightarrow> string \<Rightarrow> (string \<times> string) list \<Rightarrow> event list" where
  "autoload_events w root al = map (\<lambda>(alias, dir). IocAutoload (join w [root, dir]) alias) (js_entries al)"

text \<open>Two states that differ at most in the container and in the events.\<close>

definition same_config :: "ignitor \<Rightarrow> ignitor \<Rightarrow> bool" where
  "same_config s s' =
     (appRoot s' = appRoot s \<and> directories s' = directories s \<and> autoloads s' = autoloads s
      \<and> typescript s' = typescript s \<and> preloads s' = preloads s \<and> server s' = server s
      \<and> run_intent s' = run_intent s)"

text \<open>
  Every module load among the events passes the flag \<open>ts\<close>; no event reads the
  environment; the second state continues the first with such events only.
\<close>

definition requires_with :: "bool option \<Rightarrow> event list \<Rightarrow> bool" where
  "requires_with ts evs = list_all (\<lambda>e. case e of TsRequire p f \<Rightarrow> f = ts | _ \<Rightarrow> True) evs"

definition no_env_get :: "event list \<Rightarrow> bool" where
  "no_env_get evs = list_all (\<lambda>e. case e of EnvGet k \<Rightarrow> False | _ \<Rightarrow> True) evs"

definition continues :: "ignitor \<Rightarrow> ignitor \<Rightarrow> bool" where
  "continues s s' =
     (same_config s s'
      \<and> (\<exists>evs. trace s' = trace s @ evs \<and> requires_with (typescript s) evs \<and> no_env_get evs))"

text \<open>The event of loading one preload entry, and whether that load returns.\<close>

definition preload_event :: "world \<Rightarrow> ignitor \<Rightarrow> PreloadNode \<Rightarrow> event" where
  "preload_event w s node = TsRequire (join w [appRoot s, node_file node]) (typescript s)"

definition preload_result :: "world \<Rightarrow> ignitor \<Rightarrow> PreloadNode \<Rightarrow> js_error + unit option" where
  "preload_result w s node =
     fst (require (tsRequire_script w) (join w [appRoot s, node_file node]) (node_optional node) s)"

definition preload_ok :: "world \<Rightarrow> ignitor \<Rightarrow> PreloadNode \<Rightarrow> bool" where
  "preload_ok w s node = (case preload_result w s node of Inl e \<Rightarrow> False | Inr m \<Rightarrow> True)"

text \<open>
  The events of a whole bootstrap after the configuration was resolved into \<open>s1\<close>,
  for the start directory, alias map and provider list of the \<^verbatim>\<open>start/app\<close> module,
  in the order of \<^verbatim>\<open>_bootstrap\<close> and \<^verbatim>\<open>_bootProviders\<close>.
\<close>

definition bootstrap_events ::
  "world \<Rightarrow> ignitor \<Rightarrow> string \<Rightarrow> (string \<times> string) list \<Rightarrow> string list \<Rightarrow> event list" where
  "bootstrap_events w s1 start al list =
     [NewIoc (typescript s1),
      IocSingleton ''Adonis/Src/Helpers'',
      IocAlias ''Adonis/Src/Helpers'' ''Helpers'',
      TsRequire (join w [appRoot s1, start, ''app'']) (typescript s1),
      UseProviders list]
     @ map ProviderRegister list
     @ alias_events al
     @ map ProviderBoot list
     @ autoload_events w (appRoot s1) (autoloads s1)
     @ map (preload_event w s1) (filter (preload_filter (run_intent s1)) (preloads s1))"

text \<open>
  What \<^verbatim>\<open>_bootProviders\<close> works with, read off the resolved state \<open>s1\<close>: the start
  directory, the exports of the \<^verbatim>\<open>start/app\<close> module when it loads, its alias map and
  the provider list chosen for the run intent (empty where there is none).
\<close>

definition start_dir :: "ignitor \<Rightarrow> string" where
  "start_dir s1 = (case js_get (directories s1) ''start'' of None \<Rightarrow> [] | Some start \<Rightarrow> start)"

definition app_exports :: "world \<Rightarrow> ignitor \<Rightarrow> AppExports option" where
  "app_exports w s1 =
     (case tsRequire_app w (join w [appRoot s1, start_dir s1, ''app'']) (typescript s1) of
        Inl e \<Rightarrow> None | Inr app \<Rightarrow> Some app)"

definition user_aliases :: "world \<Rightarrow> ignitor \<Rightarrow> (string \<times> string) list" where
  "user_aliases w s1 =
     (case app_exports w s1 of
        None \<Rightarrow> []
      | Some app \<Rightarrow> (case aliases app of None \<Rightarrow> [] | Some al \<Rightarrow> al))"

definition chosen_providers :: "world \<Rightarrow> ignitor \<Rightarrow> string list" where
  "chosen_providers w s1 =
     (case app_exports w s1 of
        None \<Rightarrow> []
      | Some app \<Rightarrow> (case provider_list (run_intent s1) app of Inl e \<Rightarrow> [] | Inr list \<Rightarrow> list))"

text \<open>
  The events of a whole bootstrap started in \<open>s\<close>: the load of \<^verbatim>\<open>.adonisrc.json\<close> with
  the flag \<open>s\<close> holds, and then the events above for the state that load resolves.
\<close>

definition run_events :: "world \<Rightarrow> ignitor \<Rightarrow> event list" where
  "run_events w s =
     TsRequire (join w [appRoot s, ''.adonisrc.json'']) (typescript s)
     # bootstrap_events w (snd (loadRcFile w s)) (start_dir (snd (loadRcFile w s)))
         (user_aliases w (snd (loadRcFile w s))) (chosen_providers w (snd (loadRcFile w s)))"

section \<open>The module loader\<close>




section \<open>The configuration resolver\<close>

lemma js_entries_keys_subset: "fst ` set (js_entries ps) \<subseteq> fst ` set ps"
  by (induction ps rule: js_entries.induct) auto

lemma js_entries_distinct: "distinct (map fst (js_entries ps))"
proof (induction ps rule: js_entries.induct)
  case 1
  show ?case by simp
next
  case (2 k v ps)
  have "k \<notin> fst ` set (js_entries (filter (\<lambda>p. fst p \<noteq> k) ps))"
    using js_entries_keys_subset [of "filter (\<lambda>p. fst p \<noteq> k) ps"] by auto
  with 2 show ?case by simp
qed

lemma map_of_filter_other: "k' \<noteq> k \<Longrightarrow> map_of (filter (\<lambda>p. fst p \<noteq> k) ps) k' = map_of ps k'"
  by (induction ps) auto

lemma js_entries_map_of: "map_of (js_entries ps) = map_of ps"
proof (induction ps rule: js_entries.induct)
  case 1
  show ?case by simp
next
  case (2 k v ps)
  show ?case
  proof
    fix k'
    show "map_of (js_entries ((k, v) # ps)) k' = map_of ((k, v) # ps) k'"
      using 2 by (simp add: map_of_filter_other)
  qed
qed

lemma fold_update_map_of:
  "distinct (map fst ps) \<Longrightarrow>
     map_of (fold (\<lambda>(k, v) d. AList.update k v d) ps d) = map_of d ++ map_of ps"
proof (induction ps arbitrary: d)
  case Nil
  show ?case by simp
next
  case (Cons p ps)
  obtain k v where p: "p = (k, v)" by (cases p)
  from Cons.prems p have notin: "map_of ps k = None" and dist: "distinct (map fst ps)"
    by (auto simp: map_of_eq_None_iff)
  have "map_of (fold (\<lambda>(k, v) d. AList.update k v d) (p # ps) d)
          = map_of (AList.update k v d) ++ map_of ps"
    using Cons.IH [OF dist] p by simp
  also have "\<dots> = map_of d ++ map_of (p # ps)"
    using notin p by (auto simp: update_conv' map_add_def fun_eq_iff split: option.splits)
  finally show ?case .
qed

lemma lodash_assign_map_of: "map_of (lodash_assign dst src) = map_of dst ++ map_of src"
  by (simp add: lodash_assign_def fold_update_map_of js_entries_distinct js_entries_map_of)

lemma merge_defaults_only: "lodash_merge [] [Some DEFAULTS_directories, None] = DEFAULTS_directories"
  by (simp add: lodash_merge_def lodash_assign_def DEFAULTS_directories_def)

lemma loadRcFile_loaded:
  assumes "tsRequire_rc w (join w [appRoot s, ''.adonisrc.json'']) (typescript s) = Inr rc"
  shows "loadRcFile w s =
           (Inr (),
            (emit (TsRequire (join w [appRoot s, ''.adonisrc.json'']) (typescript s)) s)
              \<lparr>directories := lodash_merge [] [Some DEFAULTS_directories, rc_directories rc],
               autoloads := (case rc_autoloads rc of None \<Rightarrow> DEFAULTS_autoloads | Some a \<Rightarrow> a),
               typescript := Some (case rc_typescript rc of None \<Rightarrow> DEFAULTS_typescript
                                                        | Some b \<Rightarrow> b \<or> DEFAULTS_typescript),
               preloads := (case rc_preloads rc of None \<Rightarrow> [] | Some ps \<Rightarrow> ps)\<rparr>)"
  using assms by (simp add: loadRcFile_def require_def Let_def)

text \<open>
  C8. When \<^verbatim>\<open>.adonisrc.json\<close> loads, the resolved directory map holds, for every
  identifier, the path of the file where the file gives one and the built-in default
  where it does not (one level of merging); a file without \<^verbatim>\<open>directories\<close> resolves to
  the built-in defaults exactly.
\<close>

theorem directories_merged_over_defaults:
  assumes "tsRequire_rc w (join w [appRoot s, ''.adonisrc.json'']) (typescript s) = Inr rc"
  shows "map_of (directories (snd (loadRcFile w s))) k =
           (case rc_directories rc of
              None \<Rightarrow> map_of DEFAULTS_directories k
            | Some d \<Rightarrow> (case map_of d k of None \<Rightarrow> map_of DEFAULTS_directories k | Some p \<Rightarrow> Some p))
         \<and> (rc_directories rc = None \<longrightarrow> directories (snd (loadRcFile w s)) = DEFAULTS_directories)"
proof -
  have d: "directories (snd (loadRcFile w s)) = lodash_merge [] [Some DEFAULTS_directories, rc_directories rc]"
    by (simp add: loadRcFile_loaded [OF assms])
  show ?thesis
  proof (cases "rc_directories rc")
    case None
    then show ?thesis using d by (simp add: merge_defaults_only)
  next
    case (Some dirs)
    have "map_of (lodash_merge [] [Some DEFAULTS_directories, Some dirs]) k
            = (map_of DEFAULTS_directories ++ map_of dirs) k"
      by (simp add: lodash_merge_def lodash_assign_map_of)
    then show ?thesis using d Some by (simp add: map_add_def split: option.splits)
  qed
qed

theorem directories_merged_over_defaults_witness:
  "tsRequire_rc (sample_world (Inr sample_rc) sample_app)
      (join (sample_world (Inr sample_rc) sample_app) [appRoot (Ignitor ''/app''), ''.adonisrc.json''])
      (typescript (Ignitor ''/app'')) = Inr sample_rc
   \<and> rc_directories sample_rc = Some [(''tmp'', ''./temp'')]
   \<and> map_of (directories (snd (loadRcFile (sample_world (Inr sample_rc) sample_app) (Ignitor ''/app'')))) ''tmp''
        = Some ''./temp''
   \<and> map_of (directories (snd (loadRcFile (sample_world (Inr sample_rc) sample_app) (Ignitor ''/app'')))) ''start''
        = Some ''./start''
   \<and> tsRequire_rc (sample_world (Inr empty_rc) sample_app)
      (join (sample_world (Inr empty_rc) sample_app) [appRoot (Ignitor ''/app''), ''.adonisrc.json''])
      (typescript (Ignitor ''/app'')) = Inr empty_rc
   \<and> rc_directories empty_rc = None
   \<and> directories (snd (loadRcFile (sample_world (Inr empty_rc) sample_app) (Ignitor ''/app''))) = DEFAULTS_directories"
proof -
  have h1: "tsRequire_rc (sample_world (Inr sample_rc) sample_app)
      (join (sample_world (Inr sample_rc) sample_app) [appRoot (Ignitor ''/app''), ''.adonisrc.json''])
      (typescript (Ignitor ''/app'')) = Inr sample_rc"
    by (simp add: sample_world_def)
  have h2: "tsRequire_rc (sample_world (Inr empty_rc) sample_app)
      (join (sample_world (Inr empty_rc) sample_app) [appRoot (Ignitor ''/app''), ''.adonisrc.json''])
      (typescript (Ignitor ''/app'')) = Inr empty_rc"
    by (simp add: sample_world_def)
  show ?thesis
    using h1 h2
      directories_merged_over_defaults [OF h1, of "''tmp''"]
      directories_merged_over_defaults [OF h1, of "''start''"]
      directories_merged_over_defaults [OF h2, of "''tmp''"]
    by (simp add: sample_rc_def empty_rc_def DEFAULTS_directories_def)
qed

text \<open>
  C5, as the claim states it, fails: an \<^verbatim>\<open>autoloads\<close> object that is present and empty is
  truthy, so \<^verbatim>\<open>rcFile.autoloads || DEFAULTS.autoloads\<close> keeps it and the default mapping
  of \<^verbatim>\<open>App\<close> is not used.
\<close>

theorem empty_autoloads_kept_counterexample:
  "rc_autoloads (empty_rc\<lparr>rc_autoloads := Some []\<rparr>) = Some []
   \<and> autoloads (snd (loadRcFile (sample_world (Inr (empty_rc\<lparr>rc_autoloads := Some []\<rparr>)) sample_app)
                       (Ignitor ''/app''))) = []
   \<and> autoloads (snd (loadRcFile (sample_world (Inr (empty_rc\<lparr>rc_autoloads := Some []\<rparr>)) sample_app)
                       (Ignitor ''/app''))) \<noteq> DEFAULTS_autoloads"
  by (simp add: loadRcFile_def require_def sample_world_def empty_rc_def DEFAULTS_autoloads_def)

text \<open>
  C5, amended. When \<^verbatim>\<open>.adonisrc.json\<close> loads, the resolved autoload map is the file's
  \<^verbatim>\<open>autoloads\<close> value exactly, never merged with the default, whenever the file has
  one (the empty map included), and is the single default mapping of \<^verbatim>\<open>App\<close> to
  \<^verbatim>\<open>./app\<close> when the file has none.
\<close>

theorem autoloads_replace_default:
  assumes "tsRequire_rc w (join w [appRoot s, ''.adonisrc.json'']) (typescript s) = Inr rc"
  shows "(\<forall>a. rc_autoloads rc = Some a \<longrightarrow> autoloads (snd (loadRcFile w s)) = a)
         \<and> (rc_autoloads rc = None \<longrightarrow> autoloads (snd (loadRcFile w s)) = [(''App'', ''./app'')])"
  by (simp add: loadRcFile_loaded [OF assms] DEFAULTS_autoloads_def)

theorem autoloads_replace_default_witness:
  "tsRequire_rc (sample_world (Inr sample_rc) sample_app)
      (join (sample_world (Inr sample_rc) sample_app) [appRoot (Ignitor ''/app''), ''.adonisrc.json''])
      (typescript (Ignitor ''/app'')) = Inr sample_rc
   \<and> rc_autoloads sample_rc = Some [(''Lib'', ''./lib'')]
   \<and> autoloads (snd (loadRcFile (sample_world (Inr sample_rc) sample_app) (Ignitor ''/app'')))
        = [(''Lib'', ''./lib'')]
   \<and> tsRequire_rc (sample_world (Inr empty_rc) sample_app)
      (join (sample_world (Inr empty_rc) sample_app) [appRoot (Ignitor ''/app''), ''.adonisrc.json''])
      (typescript (Ignitor ''/app'')) = Inr empty_rc
   \<and> rc_autoloads empty_rc = None
   \<and> autoloads (snd (loadRcFile (sample_world (Inr empty_rc) sample_app) (Ignitor ''/app'')))
        = [(''App'', ''./app'')]"
proof -
  have h1: "tsRequire_rc (sample_world (Inr sample_rc) sample_app)
      (join (sample_world (Inr sample_rc) sample_app) [appRoot (Ignitor ''/app''), ''.adonisrc.json''])
      (typescript (Ignitor ''/app'')) = Inr sample_rc"
    by (simp add: sample_world_def)
  have h2: "tsRequire_rc (sample_world (Inr empty_rc) sample_app)
      (join (sample_world (Inr empty_rc) sample_app) [appRoot (Ignitor ''/app''), ''.adonisrc.json''])
      (typescript (Ignitor ''/app'')) = Inr empty_rc"
    by (simp add: sample_world_def)
  show ?thesis
    using h1 h2 autoloads_replace_default [OF h1] autoloads_replace_default [OF h2]
    by (simp add: sample_rc_def empty_rc_def)
qed

section \<open>The preload runner\<close>

lemma require_snd: "snd (require tsRequire filePath opt s) = emit (TsRequire filePath (typescript s)) s"
  by (auto simp: require_def Let_def split: sum.splits)

lemma emit_fields [simp]:
  "appRoot (emit e s) = appRoot s" "typescript (emit e s) = typescript s"
  "directories (emit e s) = directories s" "autoloads (emit e s) = autoloads s"
  "preloads (emit e s) = preloads s" "run_intent (emit e s) = run_intent s"
  "ioc (emit e s) = ioc s" "server (emit e s) = server s"
  "trace (emit e s) = trace s @ [e]"
  by (simp_all add: emit_def)

lemma require_fst_emit:
  "fst (require tsRequire filePath opt (emit e s)) = fst (require tsRequire filePath opt s)"
  by (auto simp: require_def Let_def split: sum.splits option.splits)

lemma preload_emit [simp]:
  "preload_event w (emit e s) = preload_event w s"
  "preload_result w (emit e s) = preload_result w s"
  "preload_ok w (emit e s) = preload_ok w s"
  by (simp_all add: preload_event_def preload_result_def preload_ok_def require_fst_emit fun_eq_iff)

lemma preload_each_step:
  "preload_each w (node # nodes) s =
     (case preload_result w s node of
        Inl e \<Rightarrow> (Inl e, emit (preload_event w s node) s)
      | Inr m \<Rightarrow> preload_each w nodes (emit (preload_event w s node) s))"
  using require_snd [of "tsRequire_script w" "join w [appRoot s, node_file node]" "node_optional node" s]
  by (cases "require (tsRequire_script w) (join w [appRoot s, node_file node]) (node_optional node) s")
     (auto simp: preload_result_def preload_event_def split: sum.splits)

lemma preload_each_trace:
  "trace (snd (preload_each w nodes s)) =
     trace s @ map (preload_event w s)
                 (takeWhile (preload_ok w s) nodes @ take 1 (dropWhile (preload_ok w s) nodes))"
proof (induction nodes arbitrary: s)
  case Nil
  show ?case by simp
next
  case (Cons node nodes)
  show ?case
  proof (cases "preload_result w s node")
    case (Inl e)
    then show ?thesis by (simp add: preload_each_step preload_ok_def del: preload_each.simps)
  next
    case (Inr m)
    then show ?thesis
      using Cons.IH [of "emit (preload_event w s node) s"]
      by (simp add: preload_each_step preload_ok_def del: preload_each.simps)
  qed
qed

lemma preload_each_result:
  "fst (preload_each w nodes s) =
     (case dropWhile (preload_ok w s) nodes of
        [] \<Rightarrow> Inr ()
      | node # rest \<Rightarrow> (case preload_result w s node of Inl e \<Rightarrow> Inl e | Inr m \<Rightarrow> Inr ()))"
proof (induction nodes arbitrary: s)
  case Nil
  show ?case by simp
next
  case (Cons node nodes)
  show ?case
  proof (cases "preload_result w s node")
    case (Inl e)
    then show ?thesis by (simp add: preload_each_step preload_ok_def del: preload_each.simps)
  next
    case (Inr m)
    then show ?thesis
      using Cons.IH [of "emit (preload_event w s node) s"]
      by (simp add: preload_each_step preload_ok_def del: preload_each.simps cong: list.case_cong)
  qed
qed


lemma preload_each_all_ok:
  "(fst (preload_each w nodes s) = Inr ()) = list_all (preload_ok w s) nodes"
proof (induction nodes arbitrary: s)
  case Nil
  show ?case by simp
next
  case (Cons node nodes)
  show ?case
  proof (cases "preload_result w s node")
    case (Inl e)
    then show ?thesis by (simp add: preload_each_step preload_ok_def del: preload_each.simps)
  next
    case (Inr m)
    then show ?thesis
      using Cons.IH [of "emit (preload_event w s node) s"]
      by (simp add: preload_each_step preload_ok_def del: preload_each.simps)
  qed
qed





section \<open>Facts about the phases\<close>

lemma same_config_refl [simp]: "same_config s s"
  by (simp add: same_config_def)

lemma same_config_trans: "same_config s s1 \<Longrightarrow> same_config s1 s2 \<Longrightarrow> same_config s s2"
  by (simp add: same_config_def)

lemma same_config_emit [simp]: "same_config s (emit e s)"
  by (simp add: same_config_def)

lemma same_config_ioc [simp]: "same_config s (s'\<lparr>ioc := c\<rparr>) = same_config s s'"
  by (simp add: same_config_def)

lemma trace_ioc_update [simp]: "trace (s\<lparr>ioc := c\<rparr>) = trace s"
  by simp

lemma apply_aliases_fold:
  "trace (fold (\<lambda>(alias, name) s'. (emit (IocAlias name alias) s')\<lparr>ioc := ioc_alias name alias (ioc s')\<rparr>) ps s)
     = trace s @ map (\<lambda>(alias, name). IocAlias name alias) ps
   \<and> same_config s (fold (\<lambda>(alias, name) s'. (emit (IocAlias name alias) s')\<lparr>ioc := ioc_alias name alias (ioc s')\<rparr>) ps s)
   \<and> ioc_aliases (ioc (fold (\<lambda>(alias, name) s'. (emit (IocAlias name alias) s')\<lparr>ioc := ioc_alias name alias (ioc s')\<rparr>) ps s))
       = fold (\<lambda>(k, v) d. AList.update k v d) ps (ioc_aliases (ioc s))"
proof (induction ps arbitrary: s)
  case Nil
  show ?case by simp
next
  case (Cons p ps)
  obtain a n where p: "p = (a, n)" by (cases p)
  let ?s1 = "(emit (IocAlias n a) s)\<lparr>ioc := ioc_alias n a (ioc s)\<rparr>"
  have c: "same_config s ?s1" by simp
  show ?case
    using Cons.IH [of ?s1] same_config_trans [OF c] p
    by (simp add: ioc_alias_def)
qed

lemma apply_aliases_trace: "trace (apply_aliases al s) = trace s @ alias_events al"
  using apply_aliases_fold [of "js_entries al" s] by (simp add: apply_aliases_def alias_events_def)

lemma apply_aliases_config: "same_config s (apply_aliases al s)"
  using apply_aliases_fold [of "js_entries al" s] by (simp add: apply_aliases_def)

lemma apply_aliases_override:
  "map_of (ioc_aliases (ioc (apply_aliases al s))) = map_of (ioc_aliases (ioc s)) ++ map_of al"
  using apply_aliases_fold [of "js_entries al" s]
  by (simp add: apply_aliases_def fold_update_map_of js_entries_distinct js_entries_map_of)

lemma registerAutoloads_fold:
  "trace (fold (\<lambda>(alias, dir) s'.
             (emit (IocAutoload (join w [appRoot s', dir]) alias) s')
               \<lparr>ioc := ioc_autoload (join w [appRoot s', dir]) alias (ioc s')\<rparr>) ps s)
     = trace s @ map (\<lambda>(alias, dir). IocAutoload (join w [appRoot s, dir]) alias) ps
   \<and> same_config s (fold (\<lambda>(alias, dir) s'.
             (emit (IocAutoload (join w [appRoot s', dir]) alias) s')
               \<lparr>ioc := ioc_autoload (join w [appRoot s', dir]) alias (ioc s')\<rparr>) ps s)"
proof (induction ps arbitrary: s)
  case Nil
  show ?case by simp
next
  case (Cons p ps)
  obtain a d where p: "p = (a, d)" by (cases p)
  let ?s1 = "(emit (IocAutoload (join w [appRoot s, d]) a) s)
               \<lparr>ioc := ioc_autoload (join w [appRoot s, d]) a (ioc s)\<rparr>"
  have c: "same_config s ?s1" by simp
  have r: "appRoot ?s1 = appRoot s" by simp
  show ?case
    using Cons.IH [of ?s1] same_config_trans [OF c] p by (simp only: r) simp
qed

lemma registerAutoloads_trace:
  "trace (registerAutoloads w s) = trace s @ autoload_events w (appRoot s) (autoloads s)"
  using registerAutoloads_fold [of w "js_entries (autoloads s)" s]
  by (simp add: registerAutoloads_def autoload_events_def)

lemma registerAutoloads_config: "same_config s (registerAutoloads w s)"
  using registerAutoloads_fold [of w "js_entries (autoloads s)" s]
  by (simp add: registerAutoloads_def)

lemma registrar_register_trace:
  "\<exists>i\<le>length ps.
      trace (snd (registrar_register w ps s)) = trace s @ map ProviderRegister (take i ps)
      \<and> (fst (registrar_register w ps s) = Inr () \<longrightarrow> i = length ps)"
proof (induction ps arbitrary: s)
  case Nil
  show ?case by simp
next
  case (Cons p ps)
  show ?case
  proof (cases "provider_register w p (ioc s)")
    case (Inl e)
    then have "trace (snd (registrar_register w (p # ps) s)) = trace s @ map ProviderRegister (take 1 (p # ps))
        \<and> (fst (registrar_register w (p # ps) s) = Inr () \<longrightarrow> 1 = length (p # ps))"
      by simp
    then show ?thesis by (intro exI [of _ 1]) simp
  next
    case (Inr c)
    obtain i where i: "i \<le> length ps"
      "trace (snd (registrar_register w ps ((emit (ProviderRegister p) s)\<lparr>ioc := c\<rparr>)))
         = trace ((emit (ProviderRegister p) s)\<lparr>ioc := c\<rparr>) @ map ProviderRegister (take i ps)"
      "fst (registrar_register w ps ((emit (ProviderRegister p) s)\<lparr>ioc := c\<rparr>)) = Inr () \<longrightarrow> i = length ps"
      using Cons.IH [of "(emit (ProviderRegister p) s)\<lparr>ioc := c\<rparr>"] by blast
    show ?thesis
      using i Inr by (intro exI [of _ "Suc i"]) simp
  qed
qed

lemma registrar_register_config: "same_config s (snd (registrar_register w ps s))"
proof (induction ps arbitrary: s)
  case Nil
  show ?case by simp
next
  case (Cons p ps)
  show ?case
  proof (cases "provider_register w p (ioc s)")
    case (Inl e)
    then show ?thesis by simp
  next
    case (Inr c)
    have c: "same_config s ((emit (ProviderRegister p) s)\<lparr>ioc := c\<rparr>)" by simp
    show ?thesis
      using same_config_trans [OF c Cons.IH [of "(emit (ProviderRegister p) s)\<lparr>ioc := c\<rparr>"]] Inr
      by simp
  qed
qed

lemma requires_with_simps [simp]:
  "requires_with ts []"
  "requires_with ts (xs @ ys) = (requires_with ts xs \<and> requires_with ts ys)"
  "requires_with ts (TsRequire p f # xs) = (f = ts \<and> requires_with ts xs)"
  "requires_with ts (NewIoc f # xs) = requires_with ts xs"
  "requires_with ts (IocSingleton n # xs) = requires_with ts xs"
  "requires_with ts (IocAlias n a # xs) = requires_with ts xs"
  "requires_with ts (IocAutoload p a # xs) = requires_with ts xs"
  "requires_with ts (UseProviders l # xs) = requires_with ts xs"
  "requires_with ts (ProviderRegister n # xs) = requires_with ts xs"
  "requires_with ts (ProviderBoot n # xs) = requires_with ts xs"
  "requires_with ts (IocUse n # xs) = requires_with ts xs"
  "requires_with ts (RouterCommit # xs) = requires_with ts xs"
  "requires_with ts (ServerOptimize # xs) = requires_with ts xs"
  "requires_with ts (HandleBind # xs) = requires_with ts xs"
  "requires_with ts (ServerCallback # xs) = requires_with ts xs"
  "requires_with ts (CreateServer # xs) = requires_with ts xs"
  "requires_with ts (EnvGet k # xs) = requires_with ts xs"
  "requires_with ts (ServerListen po ho # xs) = requires_with ts xs"
  "requires_with ts (ConsoleLog er # xs) = requires_with ts xs"
  "requires_with ts (ProcessExit n' # xs) = requires_with ts xs"
  by (simp_all add: requires_with_def)

lemma no_env_get_simps [simp]:
  "no_env_get []"
  "no_env_get (xs @ ys) = (no_env_get xs \<and> no_env_get ys)"
  "no_env_get (TsRequire p f # xs) = no_env_get xs"
  "no_env_get (NewIoc f # xs) = no_env_get xs"
  "no_env_get (IocSingleton n # xs) = no_env_get xs"
  "no_env_get (IocAlias n a # xs) = no_env_get xs"
  "no_env_get (IocAutoload p a # xs) = no_env_get xs"
  "no_env_get (UseProviders l # xs) = no_env_get xs"
  "no_env_get (ProviderRegister n # xs) = no_env_get xs"
  "no_env_get (ProviderBoot n # xs) = no_env_get xs"
  "no_env_get (IocUse n # xs) = no_env_get xs"
  "no_env_get (RouterCommit # xs) = no_env_get xs"
  "no_env_get (ServerOptimize # xs) = no_env_get xs"
  "no_env_get (HandleBind # xs) = no_env_get xs"
  "no_env_get (ServerCallback # xs) = no_env_get xs"
  "no_env_get (CreateServer # xs) = no_env_get xs"
  "no_env_get (EnvGet k # xs) = False"
  by (simp_all add: no_env_get_def)

lemma plain_events [simp]:
  "requires_with ts (map ProviderRegister ps)" "no_env_get (map ProviderRegister ps)"
  "requires_with ts (map ProviderBoot ps)" "no_env_get (map ProviderBoot ps)"
  "requires_with ts (alias_events al)" "no_env_get (alias_events al)"
  "requires_with ts (autoload_events w root al)" "no_env_get (autoload_events w root al)"
  by (simp_all add: requires_with_def no_env_get_def alias_events_def autoload_events_def
        list_all_iff split_def)

lemma preload_events_plain [simp]:
  "requires_with (typescript s) (map (preload_event w s) nodes)"
  "no_env_get (map (preload_event w s) nodes)"
  by (simp_all add: requires_with_def no_env_get_def list_all_iff preload_event_def)

lemma continuesI:
  "same_config s s' \<Longrightarrow> trace s' = trace s @ evs \<Longrightarrow> requires_with (typescript s) evs
     \<Longrightarrow> no_env_get evs \<Longrightarrow> continues s s'"
  unfolding continues_def by blast

lemma continues_refl [simp]: "continues s s"
  by (rule continuesI [of _ _ "[]"]) simp_all

lemma continues_trans:
  assumes "continues s s1" and "continues s1 s2"
  shows "continues s s2"
proof -
  from assms(1) obtain e1 where 1: "same_config s s1" "trace s1 = trace s @ e1"
    "requires_with (typescript s) e1" "no_env_get e1"
    unfolding continues_def by blast
  from assms(2) obtain e2 where 2: "same_config s1 s2" "trace s2 = trace s1 @ e2"
    "requires_with (typescript s1) e2" "no_env_get e2"
    unfolding continues_def by blast
  have ts: "typescript s1 = typescript s" using 1(1) by (simp add: same_config_def)
  show ?thesis
    by (rule continuesI [of _ _ "e1 @ e2"])
       (use 1 2 ts same_config_trans in simp_all)
qed

lemma continues_config: "continues s s' \<Longrightarrow> same_config s s'"
  by (simp add: continues_def)

lemma require_continues: "continues s (snd (require tsRequire filePath opt s))"
  by (rule continuesI [of _ _ "[TsRequire filePath (typescript s)]"]) (simp_all add: require_snd)

lemma instantiateIoCContainer_trace:
  "trace (instantiateIoCContainer s) = trace s @ [NewIoc (typescript s)]"
  "same_config s (instantiateIoCContainer s)"
  by (simp_all add: instantiateIoCContainer_def)

lemma bindHelpers_trace:
  "trace (bindHelpers s) =
     trace s @ [IocSingleton ''Adonis/Src/Helpers'', IocAlias ''Adonis/Src/Helpers'' ''Helpers'']"
  "same_config s (bindHelpers s)"
  by (simp_all add: bindHelpers_def Let_def same_config_def)

lemma validate_exports_required:
  "validate_exports start app requiredExports =
     (if \<not> truthy (providers app) then Some (missing_export ''providers'' start)
      else if \<not> truthy (aceProviders app) then Some (missing_export ''aceProviders'' start)
      else if \<not> truthy (commands app) then Some (missing_export ''commands'' start)
      else None)"
  by (simp add: requiredExports_def export_prop_def)

lemma loadAppFile_loaded:
  assumes "js_get (directories s) ''start'' = Some start"
    and "tsRequire_app w (join w [appRoot s, start, ''app'']) (typescript s) = Inr app"
  shows "loadAppFile w s =
           (case validate_exports start app requiredExports of Some e \<Rightarrow> Inl e | None \<Rightarrow> Inr app,
            emit (TsRequire (join w [appRoot s, start, ''app'']) (typescript s)) s)"
  using assms by (simp add: loadAppFile_def require_def Let_def split: option.splits)

lemma loadAppFile_continues: "continues s (snd (loadAppFile w s))"
proof (cases "js_get (directories s) ''start''")
  case None
  then show ?thesis by (simp add: loadAppFile_def)
next
  case (Some start)
  let ?r = "require (tsRequire_app w) (join w [appRoot s, start, ''app'']) None s"
  have "snd (loadAppFile w s) = snd ?r"
    using Some by (cases ?r) (auto simp: loadAppFile_def split: sum.splits option.splits)
  then show ?thesis by (simp add: require_continues)
qed

lemma loadAppFile_validated:
  assumes "loadAppFile w s = (Inr app, s1)"
  shows "truthy (providers app) \<and> truthy (aceProviders app) \<and> truthy (commands app)"
proof -
  from assms obtain start where v: "validate_exports start app requiredExports = None"
    by (auto simp: loadAppFile_def split: option.splits sum.splits prod.splits)
  then show ?thesis by (simp add: validate_exports_required split: if_splits)
qed

lemma registrar_boot_trace:
  "\<exists>j\<le>length ps.
      trace (snd (registrar_boot w ps s)) = trace s @ map ProviderBoot (take j ps)
      \<and> (fst (registrar_boot w ps s) = Inr () \<longrightarrow> j = length ps)"
proof (induction ps arbitrary: s)
  case Nil
  show ?case by simp
next
  case (Cons p ps)
  show ?case
  proof (cases "provider_boot w p (ioc s)")
    case (Inl e)
    then have "trace (snd (registrar_boot w (p # ps) s)) = trace s @ map ProviderBoot (take 1 (p # ps))
        \<and> (fst (registrar_boot w (p # ps) s) = Inr () \<longrightarrow> 1 = length (p # ps))"
      by simp
    then show ?thesis by (intro exI [of _ 1]) simp
  next
    case (Inr c)
    obtain j where j: "j \<le> length ps"
      "trace (snd (registrar_boot w ps ((emit (ProviderBoot p) s)\<lparr>ioc := c\<rparr>)))
         = trace ((emit (ProviderBoot p) s)\<lparr>ioc := c\<rparr>) @ map ProviderBoot (take j ps)"
      "fst (registrar_boot w ps ((emit (ProviderBoot p) s)\<lparr>ioc := c\<rparr>)) = Inr () \<longrightarrow> j = length ps"
      using Cons.IH [of "(emit (ProviderBoot p) s)\<lparr>ioc := c\<rparr>"] by blast
    show ?thesis
      using j Inr by (intro exI [of _ "Suc j"]) simp
  qed
qed

lemma registrar_boot_config: "same_config s (snd (registrar_boot w ps s))"
proof (induction ps arbitrary: s)
  case Nil
  show ?case by simp
next
  case (Cons p ps)
  show ?case
  proof (cases "provider_boot w p (ioc s)")
    case (Inl e)
    then show ?thesis by simp
  next
    case (Inr c)
    have c: "same_config s ((emit (ProviderBoot p) s)\<lparr>ioc := c\<rparr>)" by simp
    show ?thesis
      using same_config_trans [OF c Cons.IH [of "(emit (ProviderBoot p) s)\<lparr>ioc := c\<rparr>"]] Inr
      by simp
  qed
qed

lemma registrar_register_continues: "continues s (snd (registrar_register w ps s))"
proof -
  obtain i where "trace (snd (registrar_register w ps s)) = trace s @ map ProviderRegister (take i ps)"
    using registrar_register_trace [of ps w s] by blast
  then show ?thesis
    by (rule continuesI [OF registrar_register_config]) simp_all
qed

lemma registrar_boot_continues: "continues s (snd (registrar_boot w ps s))"
proof -
  obtain j where "trace (snd (registrar_boot w ps s)) = trace s @ map ProviderBoot (take j ps)"
    using registrar_boot_trace [of ps w s] by blast
  then show ?thesis
    by (rule continuesI [OF registrar_boot_config]) simp_all
qed

lemma apply_aliases_continues: "continues s (apply_aliases al s)"
  by (rule continuesI [OF apply_aliases_config apply_aliases_trace]) simp_all

lemma registerAutoloads_continues: "continues s (registerAutoloads w s)"
  by (rule continuesI [OF registerAutoloads_config registerAutoloads_trace]) simp_all

lemma emit_continues: "requires_with (typescript s) [e] \<Longrightarrow> no_env_get [e] \<Longrightarrow> continues s (emit e s)"
  by (rule continuesI [of _ _ "[e]"]) simp_all

lemma bootProviders_continues: "continues s (snd (bootProviders w s))"
proof (cases "loadAppFile w s")
  case (Pair r s1)
  have c1: "continues s s1" using loadAppFile_continues [of s w] Pair by simp
  show ?thesis
  proof (cases r)
    case (Inl e)
    then show ?thesis using Pair c1 by (simp add: bootProviders_def)
  next
    case (Inr app)
    show ?thesis
    proof (cases "provider_list (run_intent s1) app")
      case (Inl e)
      then show ?thesis using Pair Inr c1 by (simp add: bootProviders_def)
    next
      case L: (Inr list)
      let ?s2 = "snd (registrar_register w list (emit (UseProviders list) s1))"
      have c2: "continues s ?s2"
        by (rule continues_trans [OF c1 continues_trans [OF emit_continues registrar_register_continues]])
           simp_all
      show ?thesis
      proof (cases "fst (registrar_register w list (emit (UseProviders list) s1))")
        case (Inl e)
        then have "snd (bootProviders w s) = ?s2"
          using Pair Inr L
          by (cases "registrar_register w list (emit (UseProviders list) s1)")
             (simp add: bootProviders_def)
        then show ?thesis using c2 by simp
      next
        case R: (Inr u)
        let ?s3 = "case aliases app of None \<Rightarrow> ?s2 | Some al \<Rightarrow> apply_aliases al ?s2"
        have c3: "continues ?s2 ?s3"
          by (cases "aliases app") (simp_all add: apply_aliases_continues)
        have "snd (bootProviders w s) = snd (registrar_boot w list ?s3)"
          using Pair Inr L R
          by (cases "registrar_register w list (emit (UseProviders list) s1)")
             (simp add: bootProviders_def split: option.splits)
        then show ?thesis
          using continues_trans [OF c2 continues_trans [OF c3 registrar_boot_continues]] by simp
      qed
    qed
  qed
qed

section \<open>The provider lifecycle\<close>

lemma apply_aliases_Nil [simp]: "apply_aliases [] s = s"
  by (simp add: apply_aliases_def)

lemma bootProviders_unfold:
  assumes "loadAppFile w s = (Inr app, s1)"
    and "provider_list (run_intent s1) app = Inr list"
  shows "bootProviders w s =
           (case registrar_register w list (emit (UseProviders list) s1) of
              (Inl e, s2) \<Rightarrow> (Inl e, s2)
            | (Inr u, s2) \<Rightarrow>
                registrar_boot w list
                  (apply_aliases (case aliases app of None \<Rightarrow> [] | Some al \<Rightarrow> al) s2))"
  using assms
  by (cases "aliases app")
     (simp_all add: bootProviders_def split: prod.splits sum.splits)

lemma loadRcFile_ok:
  assumes "loadRcFile w s = (Inr (), s1)"
  shows "trace s1 = trace s @ [TsRequire (join w [appRoot s, ''.adonisrc.json'']) (typescript s)]"
    and "appRoot s1 = appRoot s" and "run_intent s1 = run_intent s" and "server s1 = server s"
    and "\<exists>b. typescript s1 = Some b"
  using assms
  by (auto simp: loadRcFile_def require_def Let_def split: sum.splits if_splits)

lemma loadRcFile_failed:
  assumes "loadRcFile w s = (Inl e, s1)"
  shows "s1 = emit (TsRequire (join w [appRoot s, ''.adonisrc.json'']) (typescript s)) s"
  using assms
  by (auto simp: loadRcFile_def require_def Let_def split: sum.splits if_splits)

lemma bootstrap_unfold:
  assumes "loadRcFile w s = (Inr (), s1)"
  shows "bootstrap w s =
           (case bootProviders w (bindHelpers (instantiateIoCContainer s1)) of
              (Inl e, s2) \<Rightarrow> (Inl e, s2)
            | (Inr u, s2) \<Rightarrow> preloadFiles w (registerAutoloads w s2))"
  using assms by (simp add: bootstrap_def)

lemma helpers_config:
  "same_config s1 (bindHelpers (instantiateIoCContainer s1))"
  using same_config_trans [OF instantiateIoCContainer_trace(2) bindHelpers_trace(2)] .

lemma helpers_trace:
  "trace (bindHelpers (instantiateIoCContainer s1)) =
     trace s1 @ [NewIoc (typescript s1), IocSingleton ''Adonis/Src/Helpers'',
                 IocAlias ''Adonis/Src/Helpers'' ''Helpers'']"
  by (simp add: bindHelpers_trace instantiateIoCContainer_trace)

lemma helpers_ioc:
  "ioc (bindHelpers (instantiateIoCContainer s1)) =
     ioc_alias ''Adonis/Src/Helpers'' ''Helpers''
       (ioc_singleton ''Adonis/Src/Helpers'' (new_Ioc (typescript s1)))"
  by (simp add: bindHelpers_def instantiateIoCContainer_def Let_def)

lemma missing_export_run:
  assumes "loadRcFile w s = (Inr (), s1)"
    and "js_get (directories s1) ''start'' = Some start"
    and "tsRequire_app w (join w [appRoot s1, start, ''app'']) (typescript s1) = Inr app"
    and "\<not> truthy (providers app) \<or> \<not> truthy (aceProviders app) \<or> \<not> truthy (commands app)"
  shows "fst (bootstrap w s) =
           Inl (missing_export
                  (if \<not> truthy (providers app) then ''providers''
                   else if \<not> truthy (aceProviders app) then ''aceProviders'' else ''commands'')
                  start)
         \<and> trace (snd (bootstrap w s)) =
             trace s @ [TsRequire (join w [appRoot s, ''.adonisrc.json'']) (typescript s),
                        NewIoc (typescript s1),
                        IocSingleton ''Adonis/Src/Helpers'',
                        IocAlias ''Adonis/Src/Helpers'' ''Helpers'',
                        TsRequire (join w [appRoot s1, start, ''app'']) (typescript s1)]
         \<and> ioc (snd (bootstrap w s)) =
             ioc_alias ''Adonis/Src/Helpers'' ''Helpers''
               (ioc_singleton ''Adonis/Src/Helpers'' (new_Ioc (typescript s1)))"
proof -
  let ?h = "bindHelpers (instantiateIoCContainer s1)"
  let ?missing = "if \<not> truthy (providers app) then ''providers''
               else if \<not> truthy (aceProviders app) then ''aceProviders'' else ''commands''"
  have cfg: "same_config s1 ?h" by (rule helpers_config)
  have start: "js_get (directories ?h) ''start'' = Some start"
    using cfg assms(2) by (simp add: same_config_def)
  have app: "tsRequire_app w (join w [appRoot ?h, start, ''app'']) (typescript ?h) = Inr app"
    using cfg assms(3) by (simp add: same_config_def)
  have v: "validate_exports start app requiredExports = Some (missing_export ?missing start)"
    using assms(4) by (auto simp: validate_exports_required)
  have la: "loadAppFile w ?h =
      (Inl (missing_export ?missing start),
       emit (TsRequire (join w [appRoot ?h, start, ''app'']) (typescript ?h)) ?h)"
    by (simp only: loadAppFile_loaded [OF start app] v option.case)
  have bp: "bootProviders w ?h =
      (Inl (missing_export ?missing start),
       emit (TsRequire (join w [appRoot ?h, start, ''app'']) (typescript ?h)) ?h)"
    by (simp add: bootProviders_def la)
  have bs: "bootstrap w s =
      (Inl (missing_export ?missing start),
       emit (TsRequire (join w [appRoot ?h, start, ''app'']) (typescript ?h)) ?h)"
    by (simp add: bootstrap_unfold [OF assms(1)] bp)
  have r: "appRoot ?h = appRoot s1" "typescript ?h = typescript s1"
    using cfg by (simp_all add: same_config_def)
  show ?thesis
    by (simp add: bs helpers_trace helpers_ioc r loadRcFile_ok(1) [OF assms(1)])
qed

lemma missing_export_message:
  "missing_export prop start =
     JsError (''E_MISSING_APP_ESSENTIALS: export `'' @ prop @ ''` from `'' @ start @ ''/app` file'')
       (Some 500) (Some ''E_MISSING_APP_ESSENTIALS'')"
  by (simp add: missing_export_def Exception_def)

text \<open>
  C4. When the \<^verbatim>\<open>start/app\<close> module loads and one of its exports \<^verbatim>\<open>providers\<close>,
  \<^verbatim>\<open>aceProviders\<close>, \<^verbatim>\<open>commands\<close> is missing or falsy, the bootstrap throws an exception
  of status 500 and code \<^verbatim>\<open>E_MISSING_APP_ESSENTIALS\<close> whose message, after the code, is
  the word \<^verbatim>\<open>export\<close>, the name of the first such export in backquotes, and the file
  \<^verbatim>\<open>app\<close> under the start directory in backquotes. Nothing was handed to the registrar
  by then: the events end with the load of the module, and the container holds the
  helpers binding only.
\<close>

theorem missing_export_fails_before_registration:
  assumes "loadRcFile w s = (Inr (), s1)"
    and "js_get (directories s1) ''start'' = Some start"
    and "tsRequire_app w (join w [appRoot s1, start, ''app'']) (typescript s1) = Inr app"
    and "\<not> truthy (providers app) \<or> \<not> truthy (aceProviders app) \<or> \<not> truthy (commands app)"
  shows "fst (bootstrap w s) =
           Inl (JsError
                  (''E_MISSING_APP_ESSENTIALS: export `''
                     @ (if \<not> truthy (providers app) then ''providers''
                        else if \<not> truthy (aceProviders app) then ''aceProviders'' else ''commands'')
                     @ ''` from `'' @ start @ ''/app` file'')
                  (Some 500) (Some ''E_MISSING_APP_ESSENTIALS''))
         \<and> trace (snd (bootstrap w s)) =
             trace s @ [TsRequire (join w [appRoot s, ''.adonisrc.json'']) (typescript s),
                        NewIoc (typescript s1),
                        IocSingleton ''Adonis/Src/Helpers'',
                        IocAlias ''Adonis/Src/Helpers'' ''Helpers'',
                        TsRequire (join w [appRoot s1, start, ''app'']) (typescript s1)]
         \<and> ioc (snd (bootstrap w s)) =
             ioc_alias ''Adonis/Src/Helpers'' ''Helpers''
               (ioc_singleton ''Adonis/Src/Helpers'' (new_Ioc (typescript s1)))"
  using missing_export_run [OF assms] by (simp only: missing_export_message)

lemma loadRcFile_missing:
  assumes "tsRequire_rc w (join w [appRoot s, ''.adonisrc.json'']) (typescript s) = Inl e"
    and "err_code e \<in> {Some ''MODULE_NOT_FOUND'', Some ''ENOENT''}"
  shows "loadRcFile w s =
           (Inr (),
            (emit (TsRequire (join w [appRoot s, ''.adonisrc.json'']) (typescript s)) s)
              \<lparr>directories := DEFAULTS_directories, autoloads := DEFAULTS_autoloads,
               typescript := Some False, preloads := []\<rparr>)"
  using assms
  by (auto simp: loadRcFile_def require_def Let_def empty_rc_def merge_defaults_only
        DEFAULTS_typescript_def)

lemma sample_join_root [simp]:
  "sample_join [''/app'', ''.adonisrc.json''] = ''/app/.adonisrc.json''"
  "sample_join [''/app'', ''./start'', ''app''] = ''/app/start/app''"
  "sample_join [''/app'', ''./app''] = ''/app/app''"
  "sample_join [''/app'', ''./lib''] = ''/app/lib''"
  "sample_join [''/app'', ''start/routes''] = ''/app/start/routes''"
  "sample_join [''/app'', ''start/kernel''] = ''/app/start/kernel''"
  by (simp_all add: sample_join_def strip_dot_def)

lemma sample_world_simps [simp]:
  "join (sample_world rc app) = sample_join"
  "tsRequire_rc (sample_world rc app) p ts = rc"
  "tsRequire_app (sample_world rc app) ''/app/start/app'' ts = Inr app"
  "provider_register (sample_world rc app) p c = Inr (ioc_alias p ''Route'' (ioc_singleton p c))"
  "provider_boot (sample_world rc app) p c = Inr c"
  "ioc_use (sample_world rc app) c n = None"
  "router_commit (sample_world rc app) = None"
  "server_optimize (sample_world rc app) = None"
  "env_get (sample_world rc app) ''PORT'' = Some ''3333''"
  "env_get (sample_world rc app) ''HOST'' = Some ''127.0.0.1''"
  "server_listen (sample_world rc app) t po ho = None"
  by (simp_all add: sample_world_def)

lemma sample_rc_missing:
  "loadRcFile (sample_world (Inl ENOENT) app) (Ignitor ''/app'') =
     (Inr (),
      (emit (TsRequire ''/app/.adonisrc.json'' None) (Ignitor ''/app''))
        \<lparr>directories := DEFAULTS_directories, autoloads := DEFAULTS_autoloads,
         typescript := Some False, preloads := []\<rparr>)"
proof -
  have 1: "tsRequire_rc (sample_world (Inl ENOENT) app)
             (join (sample_world (Inl ENOENT) app) [appRoot (Ignitor ''/app''), ''.adonisrc.json''])
             (typescript (Ignitor ''/app'')) = Inl ENOENT"
    by simp
  have 2: "err_code ENOENT \<in> {Some ''MODULE_NOT_FOUND'', Some ''ENOENT''}"
    by (simp add: ENOENT_def)
  show ?thesis
    using loadRcFile_missing [OF 1 2] by (simp add: Ignitor_def)
qed

theorem missing_export_fails_before_registration_witness:
  "fst (loadRcFile (sample_world (Inl ENOENT) (sample_app\<lparr>commands := JZero\<rparr>)) (Ignitor ''/app'')) = Inr ()
   \<and> js_get (directories (snd (loadRcFile (sample_world (Inl ENOENT) (sample_app\<lparr>commands := JZero\<rparr>))
                                  (Ignitor ''/app'')))) ''start'' = Some ''./start''
   \<and> tsRequire_app (sample_world (Inl ENOENT) (sample_app\<lparr>commands := JZero\<rparr>)) ''/app/start/app'' (Some False)
        = Inr (sample_app\<lparr>commands := JZero\<rparr>)
   \<and> \<not> truthy (commands (sample_app\<lparr>commands := JZero\<rparr>))
   \<and> fst (bootstrap (sample_world (Inl ENOENT) (sample_app\<lparr>commands := JZero\<rparr>)) (Ignitor ''/app''))
       = Inl (JsError ''E_MISSING_APP_ESSENTIALS: export `commands` from `./start/app` file''
               (Some 500) (Some ''E_MISSING_APP_ESSENTIALS''))
   \<and> trace (snd (bootstrap (sample_world (Inl ENOENT) (sample_app\<lparr>commands := JZero\<rparr>)) (Ignitor ''/app'')))
       = [TsRequire ''/app/.adonisrc.json'' None, NewIoc (Some False),
          IocSingleton ''Adonis/Src/Helpers'', IocAlias ''Adonis/Src/Helpers'' ''Helpers'',
          TsRequire ''/app/start/app'' (Some False)]
   \<and> ioc_singletons (ioc (snd (bootstrap (sample_world (Inl ENOENT) (sample_app\<lparr>commands := JZero\<rparr>))
                                  (Ignitor ''/app'')))) = [''Adonis/Src/Helpers'']"
proof -
  let ?app = "sample_app\<lparr>commands := JZero\<rparr>"
  let ?w = "sample_world (Inl ENOENT) ?app"
  let ?s1 = "(emit (TsRequire ''/app/.adonisrc.json'' None) (Ignitor ''/app''))
        \<lparr>directories := DEFAULTS_directories, autoloads := DEFAULTS_autoloads,
         typescript := Some False, preloads := []\<rparr>"
  have h1: "loadRcFile ?w (Ignitor ''/app'') = (Inr (), ?s1)"
    by (rule sample_rc_missing)
  have h2: "js_get (directories ?s1) ''start'' = Some ''./start''"
    by (simp add: js_get_def DEFAULTS_directories_def)
  have root: "appRoot ?s1 = ''/app''" "typescript ?s1 = Some False"
    by (simp_all add: Ignitor_def)
  have h3: "tsRequire_app ?w (join ?w [appRoot ?s1, ''./start'', ''app'']) (typescript ?s1) = Inr ?app"
    by (simp add: root)
  have h4: "\<not> truthy (providers ?app) \<or> \<not> truthy (aceProviders ?app) \<or> \<not> truthy (commands ?app)"
    by (simp add: sample_app_def)
  have tr: "trace (Ignitor ''/app'') = []" "appRoot (Ignitor ''/app'') = ''/app''"
    "typescript (Ignitor ''/app'') = None"
    by (simp_all add: Ignitor_def)
  have c: "\<not> truthy (commands ?app)" "truthy (providers ?app)" "truthy (aceProviders ?app)"
    by (simp_all add: sample_app_def)
  have c': "truthy (providers sample_app)" "truthy (aceProviders sample_app)"
    by (simp_all add: sample_app_def)
  have a1: "fst (loadRcFile ?w (Ignitor ''/app'')) = Inr ()"
    "js_get (directories (snd (loadRcFile ?w (Ignitor ''/app'')))) ''start'' = Some ''./start''"
    using h2 by (simp_all only: h1 fst_conv snd_conv)
  have a3: "tsRequire_app ?w ''/app/start/app'' (Some False) = Inr ?app"
    by simp
  have concl: "fst (bootstrap ?w (Ignitor ''/app'')) = Inl (JsError ''E_MISSING_APP_ESSENTIALS: export `commands` from `./start/app` file''
               (Some 500) (Some ''E_MISSING_APP_ESSENTIALS''))
     \<and> trace (snd (bootstrap ?w (Ignitor ''/app'')))
       = [TsRequire ''/app/.adonisrc.json'' None, NewIoc (Some False),
          IocSingleton ''Adonis/Src/Helpers'', IocAlias ''Adonis/Src/Helpers'' ''Helpers'',
          TsRequire ''/app/start/app'' (Some False)]
     \<and> ioc_singletons (ioc (snd (bootstrap ?w (Ignitor ''/app'')))) = [''Adonis/Src/Helpers'']"
    using missing_export_fails_before_registration [OF h1 h2 h3 h4]
    by (simp add: root tr c c' ioc_alias_def ioc_singleton_def new_Ioc_def)
  show ?thesis
    using a1 a3 c(1) concl by simp
qed

lemma loadAppFile_config:
  assumes "loadAppFile w s = (r, s1)"
  shows "same_config s s1"
  using continues_config [OF loadAppFile_continues [of s w]] assms by simp

lemma registration_failed:
  assumes "loadAppFile w s = (Inr app, s1)"
    and "provider_list (run_intent s1) app = Inr list"
    and "registrar_register w list (emit (UseProviders list) s1) = (Inl e, s2)"
  shows "bootProviders w s = (Inl e, s2)"
    and "\<exists>i\<le>length list. trace s2 = trace s1 @ [UseProviders list] @ map ProviderRegister (take i list)"
proof -
  show "bootProviders w s = (Inl e, s2)"
    by (simp add: bootProviders_unfold [OF assms(1,2)] assms(3))
  show "\<exists>i\<le>length list. trace s2 = trace s1 @ [UseProviders list] @ map ProviderRegister (take i list)"
    using registrar_register_trace [of list w "emit (UseProviders list) s1"] assms(3) by auto
qed

lemma registration_done:
  assumes "loadAppFile w s = (Inr app, s1)"
    and "provider_list (run_intent s1) app = Inr list"
    and "registrar_register w list (emit (UseProviders list) s1) = (Inr (), s2)"
  shows "bootProviders w s =
           registrar_boot w list (apply_aliases (case aliases app of None \<Rightarrow> [] | Some al \<Rightarrow> al) s2)"
    and "trace (apply_aliases al s2) =
           trace s1 @ [UseProviders list] @ map ProviderRegister list @ alias_events al"
proof -
  show "bootProviders w s =
           registrar_boot w list (apply_aliases (case aliases app of None \<Rightarrow> [] | Some al \<Rightarrow> al) s2)"
    by (simp add: bootProviders_unfold [OF assms(1,2)] assms(3))
  have "trace s2 = trace s1 @ [UseProviders list] @ map ProviderRegister list"
    using registrar_register_trace [of list w "emit (UseProviders list) s1"] assms(3) by auto
  then show "trace (apply_aliases al s2) =
           trace s1 @ [UseProviders list] @ map ProviderRegister list @ alias_events al"
    by (simp add: apply_aliases_trace)
qed

text \<open>
  C2. In \<^verbatim>\<open>_bootProviders\<close>, once the \<^verbatim>\<open>start/app\<close> module is loaded: if a provider
  throws while registering, no alias is applied and nothing boots; otherwise every
  provider of the list is registered first, then each alias of the \<^verbatim>\<open>aliases\<close> export
  is applied to the container, and only then are providers booted, in list order. The
  container that the boot starts from resolves every user alias to the name the user
  gave it, whatever the providers aliased while registering.
\<close>

theorem user_aliases_after_register_before_boot:
  assumes "loadAppFile w s = (Inr app, s1)"
    and "provider_list (run_intent s1) app = Inr list"
  shows "(\<forall>e s2. registrar_register w list (emit (UseProviders list) s1) = (Inl e, s2) \<longrightarrow>
            bootProviders w s = (Inl e, s2)
            \<and> (\<exists>i\<le>length list.
                  trace s2 = trace s1 @ [UseProviders list] @ map ProviderRegister (take i list)))
       \<and> (\<forall>s2. registrar_register w list (emit (UseProviders list) s1) = (Inr (), s2) \<longrightarrow>
            bootProviders w s =
              registrar_boot w list
                (apply_aliases (case aliases app of None \<Rightarrow> [] | Some al \<Rightarrow> al) s2)
            \<and> (\<exists>j\<le>length list.
                  trace (snd (bootProviders w s)) =
                    trace s1 @ [UseProviders list] @ map ProviderRegister list
                      @ alias_events (case aliases app of None \<Rightarrow> [] | Some al \<Rightarrow> al)
                      @ map ProviderBoot (take j list)
                  \<and> (fst (bootProviders w s) = Inr () \<longrightarrow> j = length list))
            \<and> (\<forall>a n. map_of (case aliases app of None \<Rightarrow> [] | Some al \<Rightarrow> al) a = Some n \<longrightarrow>
                  map_of (ioc_aliases (ioc (apply_aliases
                            (case aliases app of None \<Rightarrow> [] | Some al \<Rightarrow> al) s2))) a = Some n))"
proof (intro conjI allI impI)
  fix e s2
  assume r: "registrar_register w list (emit (UseProviders list) s1) = (Inl e, s2)"
  show "bootProviders w s = (Inl e, s2)"
    by (rule registration_failed(1) [OF assms r])
  show "\<exists>i\<le>length list. trace s2 = trace s1 @ [UseProviders list] @ map ProviderRegister (take i list)"
    by (rule registration_failed(2) [OF assms r])
next
  fix s2
  let ?al = "case aliases app of None \<Rightarrow> [] | Some al \<Rightarrow> al"
  assume r: "registrar_register w list (emit (UseProviders list) s1) = (Inr (), s2)"
  show bp: "bootProviders w s = registrar_boot w list (apply_aliases ?al s2)"
    by (rule registration_done(1) [OF assms r])
  obtain j where j: "j \<le> length list"
    "trace (snd (registrar_boot w list (apply_aliases ?al s2)))
       = trace (apply_aliases ?al s2) @ map ProviderBoot (take j list)"
    "fst (registrar_boot w list (apply_aliases ?al s2)) = Inr () \<longrightarrow> j = length list"
    using registrar_boot_trace [of list w "apply_aliases ?al s2"] by blast
  have "trace (snd (bootProviders w s)) =
          trace s1 @ [UseProviders list] @ map ProviderRegister list @ alias_events ?al
            @ map ProviderBoot (take j list)
        \<and> (fst (bootProviders w s) = Inr () \<longrightarrow> j = length list)"
    using j(2,3) by (simp add: bp registration_done(2) [OF assms r])
  with j(1) show "\<exists>j\<le>length list.
      trace (snd (bootProviders w s)) =
        trace s1 @ [UseProviders list] @ map ProviderRegister list @ alias_events ?al
          @ map ProviderBoot (take j list)
      \<and> (fst (bootProviders w s) = Inr () \<longrightarrow> j = length list)"
    by blast
next
  fix s2 a n
  let ?al = "case aliases app of None \<Rightarrow> [] | Some al \<Rightarrow> al"
  assume "map_of ?al a = Some n"
  then show "map_of (ioc_aliases (ioc (apply_aliases ?al s2))) a = Some n"
    by (simp add: apply_aliases_override)
qed

lemma sample_ready_fields [simp]:
  "appRoot sample_ready = ''/app''" "typescript sample_ready = Some False"
  "run_intent sample_ready = Some ''http''" "trace sample_ready = []"
  "directories sample_ready = DEFAULTS_directories" "autoloads sample_ready = DEFAULTS_autoloads"
  "preloads sample_ready = []" "ioc sample_ready = new_Ioc None"
  by (simp_all add: sample_ready_def Ignitor_def)

lemma DEFAULTS_start [simp]: "js_get DEFAULTS_directories ''start'' = Some ''./start''"
  by (simp add: js_get_def DEFAULTS_directories_def)

lemma sample_loadAppFile:
  assumes "truthy (providers app)" "truthy (aceProviders app)" "truthy (commands app)"
  shows "loadAppFile (sample_world rc app) sample_ready =
           (Inr app, emit (TsRequire ''/app/start/app'' (Some False)) sample_ready)"
proof -
  have 1: "js_get (directories sample_ready) ''start'' = Some ''./start''" by simp
  have 2: "tsRequire_app (sample_world rc app)
             (join (sample_world rc app) [appRoot sample_ready, ''./start'', ''app''])
             (typescript sample_ready) = Inr app"
    by simp
  show ?thesis
    using loadAppFile_loaded [OF 1 2] assms by (simp add: validate_exports_required)
qed

lemma sample_app_fields [simp]:
  "providers sample_app = Present [''A'', ''B'']" "aceProviders sample_app = Present [''C'', ''A'']"
  "commands sample_app = Present []" "aliases sample_app = Some [(''Route'', ''My/Route'')]"
  by (simp_all add: sample_app_def)

theorem user_aliases_after_register_before_boot_witness:
  "loadAppFile (sample_world (Inl ENOENT) sample_app) sample_ready =
     (Inr sample_app, emit (TsRequire ''/app/start/app'' (Some False)) sample_ready)
   \<and> provider_list (run_intent (emit (TsRequire ''/app/start/app'' (Some False)) sample_ready)) sample_app
       = Inr [''A'', ''B'']
   \<and> fst (registrar_register (sample_world (Inl ENOENT) sample_app) [''A'', ''B'']
            (emit (UseProviders [''A'', ''B''])
               (emit (TsRequire ''/app/start/app'' (Some False)) sample_ready))) = Inr ()
   \<and> map_of (ioc_aliases (ioc (snd (registrar_register (sample_world (Inl ENOENT) sample_app) [''A'', ''B'']
            (emit (UseProviders [''A'', ''B''])
               (emit (TsRequire ''/app/start/app'' (Some False)) sample_ready)))))) ''Route'' = Some ''B''
   \<and> map_of (ioc_aliases (ioc (apply_aliases [(''Route'', ''My/Route'')]
         (snd (registrar_register (sample_world (Inl ENOENT) sample_app) [''A'', ''B'']
            (emit (UseProviders [''A'', ''B''])
               (emit (TsRequire ''/app/start/app'' (Some False)) sample_ready))))))) ''Route''
       = Some ''My/Route''
   \<and> trace (snd (bootProviders (sample_world (Inl ENOENT) sample_app) sample_ready)) =
       [TsRequire ''/app/start/app'' (Some False), UseProviders [''A'', ''B''],
        ProviderRegister ''A'', ProviderRegister ''B'', IocAlias ''My/Route'' ''Route'',
        ProviderBoot ''A'', ProviderBoot ''B'']"
proof -
  let ?w = "sample_world (Inl ENOENT) sample_app"
  let ?s1 = "emit (TsRequire ''/app/start/app'' (Some False)) sample_ready"
  let ?r = "registrar_register ?w [''A'', ''B''] (emit (UseProviders [''A'', ''B'']) ?s1)"
  have h1: "loadAppFile ?w sample_ready = (Inr sample_app, ?s1)"
    by (rule sample_loadAppFile) simp_all
  have h2: "provider_list (run_intent ?s1) sample_app = Inr [''A'', ''B'']"
    by (simp add: provider_list_def)
  have f: "fst ?r = Inr ()" by simp
  have h3: "?r = (Inr (), snd ?r)"
    using f by (simp add: prod_eq_iff)
  have own: "map_of (ioc_aliases (ioc (snd ?r))) ''Route'' = Some ''B''"
    by (simp add: ioc_alias_def ioc_singleton_def new_Ioc_def)
  note T = user_aliases_after_register_before_boot [OF h1 h2, THEN conjunct2, THEN spec, THEN mp, OF h3]
  have bp: "bootProviders ?w sample_ready =
      registrar_boot ?w [''A'', ''B''] (apply_aliases [(''Route'', ''My/Route'')] (snd ?r))"
    using T [THEN conjunct1] by simp
  have ok: "fst (bootProviders ?w sample_ready) = Inr ()"
    by (simp add: bp)
  have user: "map_of (ioc_aliases (ioc (apply_aliases [(''Route'', ''My/Route'')] (snd ?r)))) ''Route''
      = Some ''My/Route''"
    using T [THEN conjunct2, THEN conjunct2, THEN spec, THEN spec, of "''Route''" "''My/Route''"]
    by simp
  obtain j where j: "trace (snd (bootProviders ?w sample_ready)) =
      trace ?s1 @ [UseProviders [''A'', ''B'']] @ map ProviderRegister [''A'', ''B'']
        @ alias_events (case aliases sample_app of None \<Rightarrow> [] | Some al \<Rightarrow> al)
        @ map ProviderBoot (take j [''A'', ''B''])"
    "fst (bootProviders ?w sample_ready) = Inr () \<longrightarrow> j = length [''A'', ''B'']"
    using T [THEN conjunct2, THEN conjunct1] by blast
  have tr: "trace (snd (bootProviders ?w sample_ready)) =
       [TsRequire ''/app/start/app'' (Some False), UseProviders [''A'', ''B''],
        ProviderRegister ''A'', ProviderRegister ''B'', IocAlias ''My/Route'' ''Route'',
        ProviderBoot ''A'', ProviderBoot ''B'']"
    using j ok by (simp add: alias_events_def)
  show ?thesis
    using h1 h2 f own user tr by (intro conjI)
qed

lemma no_register_after:
  "ProviderRegister p \<notin> set (alias_events al @ map ProviderBoot qs)"
  by (auto simp: alias_events_def)

text \<open>
  C3. When the \<^verbatim>\<open>start/app\<close> module loads with its \<^verbatim>\<open>providers\<close> and \<^verbatim>\<open>aceProviders\<close>
  arrays, the list handed to the registrar is \<^verbatim>\<open>providers\<close> followed by
  \<^verbatim>\<open>aceProviders\<close> when the run intent is \<^verbatim>\<open>ace\<close>, and \<^verbatim>\<open>providers\<close> alone otherwise
  (so for \<^verbatim>\<open>http\<close>); nothing is removed from it. The providers registered are the
  providers of that list, in its order, up to the first whose registration throws, and
  all of them when the providers were booted.
\<close>

theorem registered_list_by_intent:
  assumes "loadAppFile w s = (Inr app, s1)"
    and "providers app = Present ps"
    and "aceProviders app = Present as"
  shows "\<exists>i rest.
           i \<le> length (if run_intent s = Some ''ace'' then ps @ as else ps)
           \<and> trace (snd (bootProviders w s)) =
               trace s1 @ [UseProviders (if run_intent s = Some ''ace'' then ps @ as else ps)]
                 @ map ProviderRegister (take i (if run_intent s = Some ''ace'' then ps @ as else ps))
                 @ rest
           \<and> (\<forall>p. ProviderRegister p \<notin> set rest)
           \<and> (fst (bootProviders w s) = Inr () \<longrightarrow>
                i = length (if run_intent s = Some ''ace'' then ps @ as else ps))"
proof -
  let ?L = "if run_intent s = Some ''ace'' then ps @ as else ps"
  let ?al = "case aliases app of None \<Rightarrow> [] | Some al \<Rightarrow> al"
  have ri: "run_intent s1 = run_intent s"
    using loadAppFile_config [OF assms(1)] by (simp add: same_config_def)
  have pl: "provider_list (run_intent s1) app = Inr ?L"
    using assms(2,3) by (simp add: provider_list_def ri)
  obtain r s2 where r: "registrar_register w ?L (emit (UseProviders ?L) s1) = (r, s2)"
    by (cases "registrar_register w ?L (emit (UseProviders ?L) s1)")
  show ?thesis
  proof (cases r)
    case (Inl e)
    have bp: "bootProviders w s = (Inl e, s2)"
      using registration_failed(1) [OF assms(1) pl] r Inl by simp
    obtain i where i: "i \<le> length ?L"
      "trace s2 = trace s1 @ [UseProviders ?L] @ map ProviderRegister (take i ?L)"
      using registration_failed(2) [OF assms(1) pl] r Inl by blast
    have "i \<le> length ?L
        \<and> trace (snd (bootProviders w s)) =
            trace s1 @ [UseProviders ?L] @ map ProviderRegister (take i ?L) @ []
        \<and> (\<forall>p. ProviderRegister p \<notin> set [])
        \<and> (fst (bootProviders w s) = Inr () \<longrightarrow> i = length ?L)"
      using i by (simp add: bp)
    then show ?thesis by blast
  next
    case (Inr u)
    have r': "registrar_register w ?L (emit (UseProviders ?L) s1) = (Inr (), s2)"
      using r Inr by simp
    have bp: "bootProviders w s = registrar_boot w ?L (apply_aliases ?al s2)"
      by (rule registration_done(1) [OF assms(1) pl r'])
    obtain j where j:
      "trace (snd (registrar_boot w ?L (apply_aliases ?al s2)))
         = trace (apply_aliases ?al s2) @ map ProviderBoot (take j ?L)"
      using registrar_boot_trace [of ?L w "apply_aliases ?al s2"] by blast
    have "length ?L \<le> length ?L
        \<and> trace (snd (bootProviders w s)) =
            trace s1 @ [UseProviders ?L] @ map ProviderRegister (take (length ?L) ?L)
              @ (alias_events ?al @ map ProviderBoot (take j ?L))
        \<and> (\<forall>p. ProviderRegister p \<notin> set (alias_events ?al @ map ProviderBoot (take j ?L)))
        \<and> (fst (bootProviders w s) = Inr () \<longrightarrow> length ?L = length ?L)"
      using j no_register_after
      by (simp only: bp registration_done(2) [OF assms(1) pl r'] take_all append_assoc order_refl
            simp_thms)
    then show ?thesis by blast
  qed
qed

lemma sample_loadAppFile_at:
  assumes "appRoot s = ''/app''" "directories s = DEFAULTS_directories"
    and "truthy (providers app)" "truthy (aceProviders app)" "truthy (commands app)"
  shows "loadAppFile (sample_world rc app) s =
           (Inr app, emit (TsRequire ''/app/start/app'' (typescript s)) s)"
proof -
  have 1: "js_get (directories s) ''start'' = Some ''./start''" using assms(2) by simp
  have 2: "tsRequire_app (sample_world rc app)
             (join (sample_world rc app) [appRoot s, ''./start'', ''app''])
             (typescript s) = Inr app"
    using assms(1) by simp
  show ?thesis
    using loadAppFile_loaded [OF 1 2] assms by (simp add: validate_exports_required)
qed

theorem registered_list_by_intent_witness:
  "loadAppFile (sample_world (Inl ENOENT) sample_app) sample_ready =
     (Inr sample_app, emit (TsRequire ''/app/start/app'' (Some False)) sample_ready)
   \<and> providers sample_app = Present [''A'', ''B'']
   \<and> aceProviders sample_app = Present [''C'', ''A'']
   \<and> run_intent sample_ready = Some ''http''
   \<and> take 4 (trace (snd (bootProviders (sample_world (Inl ENOENT) sample_app) sample_ready))) =
       [TsRequire ''/app/start/app'' (Some False), UseProviders [''A'', ''B''],
        ProviderRegister ''A'', ProviderRegister ''B'']
   \<and> loadAppFile (sample_world (Inl ENOENT) sample_app) (sample_ready\<lparr>run_intent := Some ''ace''\<rparr>) =
     (Inr sample_app,
      emit (TsRequire ''/app/start/app'' (Some False)) (sample_ready\<lparr>run_intent := Some ''ace''\<rparr>))
   \<and> take 6 (trace (snd (bootProviders (sample_world (Inl ENOENT) sample_app)
                           (sample_ready\<lparr>run_intent := Some ''ace''\<rparr>)))) =
       [TsRequire ''/app/start/app'' (Some False), UseProviders [''A'', ''B'', ''C'', ''A''],
        ProviderRegister ''A'', ProviderRegister ''B'', ProviderRegister ''C'', ProviderRegister ''A'']"
proof -
  let ?w = "sample_world (Inl ENOENT) sample_app"
  let ?ace = "sample_ready\<lparr>run_intent := Some ''ace''\<rparr>"
  have h1: "loadAppFile ?w sample_ready =
      (Inr sample_app, emit (TsRequire ''/app/start/app'' (Some False)) sample_ready)"
    using sample_loadAppFile_at [of sample_ready sample_app "Inl ENOENT"] by simp
  have h1': "loadAppFile ?w ?ace =
      (Inr sample_app, emit (TsRequire ''/app/start/app'' (Some False)) ?ace)"
    using sample_loadAppFile_at [of ?ace sample_app "Inl ENOENT"] by simp
  have h2: "providers sample_app = Present [''A'', ''B'']" by simp
  have h3: "aceProviders sample_app = Present [''C'', ''A'']" by simp
  have ok: "fst (bootProviders ?w sample_ready) = Inr ()"
    by (simp add: bootProviders_def h1 provider_list_def)
  have ok': "fst (bootProviders ?w ?ace) = Inr ()"
    by (simp add: bootProviders_def h1' provider_list_def)
  obtain i rest where http: "trace (snd (bootProviders ?w sample_ready)) =
        [TsRequire ''/app/start/app'' (Some False), UseProviders [''A'', ''B'']]
          @ map ProviderRegister (take i [''A'', ''B'']) @ rest"
      "i = 2"
    using registered_list_by_intent [OF h1 h2 h3] ok by auto
  obtain i' rest' where ace: "trace (snd (bootProviders ?w ?ace)) =
        [TsRequire ''/app/start/app'' (Some False), UseProviders [''A'', ''B'', ''C'', ''A'']]
          @ map ProviderRegister (take i' [''A'', ''B'', ''C'', ''A'']) @ rest'"
      "i' = 4"
    using registered_list_by_intent [OF h1' h2 h3] ok' by auto
  have t: "take 4 (trace (snd (bootProviders ?w sample_ready))) =
       [TsRequire ''/app/start/app'' (Some False), UseProviders [''A'', ''B''],
        ProviderRegister ''A'', ProviderRegister ''B'']"
    by (simp add: http)
  have t': "take 6 (trace (snd (bootProviders ?w ?ace))) =
       [TsRequire ''/app/start/app'' (Some False), UseProviders [''A'', ''B'', ''C'', ''A''],
        ProviderRegister ''A'', ProviderRegister ''B'', ProviderRegister ''C'', ProviderRegister ''A'']"
    by (simp add: ace)
  have ri: "run_intent sample_ready = Some ''http''" by simp
  show ?thesis
    using h1 h2 h3 ri t h1' t' by (intro conjI)
qed

section \<open>The launch of the HTTP server\<close>

lemma preload_each_config: "same_config s (snd (preload_each w nodes s))"
proof (induction nodes arbitrary: s)
  case Nil
  show ?case by simp
next
  case (Cons node nodes)
  show ?case
  proof (cases "preload_result w s node")
    case (Inl e)
    then show ?thesis by (simp add: preload_each_step del: preload_each.simps)
  next
    case (Inr m)
    have c: "same_config s (emit (preload_event w s node) s)" by simp
    show ?thesis
      using same_config_trans [OF c Cons.IH [of "emit (preload_event w s node) s"]] Inr
      by (simp add: preload_each_step del: preload_each.simps)
  qed
qed

lemma preloadFiles_continues: "continues s (snd (preloadFiles w s))"
  unfolding preloadFiles_def
  by (rule continuesI [OF preload_each_config preload_each_trace]) simp_all

lemma helpers_continues: "continues s1 (bindHelpers (instantiateIoCContainer s1))"
  by (rule continuesI [OF helpers_config helpers_trace]) simp_all

lemma bootstrap_continues:
  assumes "loadRcFile w s = (Inr (), s1)"
  shows "continues s1 (snd (bootstrap w s))"
proof -
  let ?h = "bindHelpers (instantiateIoCContainer s1)"
  obtain r s2 where bp: "bootProviders w ?h = (r, s2)"
    by (cases "bootProviders w ?h")
  have c2: "continues s1 s2"
    using continues_trans [OF helpers_continues bootProviders_continues [of ?h w]] bp by simp
  show ?thesis
  proof (cases r)
    case (Inl e)
    then show ?thesis using c2 bp by (simp add: bootstrap_unfold [OF assms])
  next
    case (Inr u)
    have "snd (bootstrap w s) = snd (preloadFiles w (registerAutoloads w s2))"
      using bp Inr by (simp add: bootstrap_unfold [OF assms])
    then show ?thesis
      using continues_trans [OF c2 continues_trans [OF registerAutoloads_continues preloadFiles_continues]]
      by simp
  qed
qed

lemma use_result:
  "use w name s = (case ioc_use w (ioc s) name of Some e \<Rightarrow> Inl e | None \<Rightarrow> Inr (), emit (IocUse name) s)"
  by (simp add: use_def split: option.splits)

lemma createHttp_launched:
  assumes "ioc_use w (ioc s) ''Adonis/Src/Server'' = None"
    and "ioc_use w (ioc s) ''Adonis/Src/Route'' = None"
    and "router_commit w = None"
    and "server_optimize w = None"
  shows "createHttp w None s =
           (Inr (),
            (emit CreateServer (emit HandleBind (emit HandleBind (emit ServerOptimize (emit RouterCommit
               (emit (IocUse ''Adonis/Src/Route'') (emit (IocUse ''Adonis/Src/Server'') s)))))))
              \<lparr>server := Some NodeServer\<rparr>)"
    and "cb BoundHandle = Inr t \<Longrightarrow>
         createHttp w (Some cb) s =
           (Inr (),
            (emit ServerCallback (emit HandleBind (emit ServerOptimize (emit RouterCommit
               (emit (IocUse ''Adonis/Src/Route'') (emit (IocUse ''Adonis/Src/Server'') s))))))
              \<lparr>server := Some (FromCallback t)\<rparr>)"
  using assms by (simp_all add: createHttp_def use_result Let_def)

lemma createHttp_trace:
  "\<exists>evs. trace (snd (createHttp w serverCallback s)) = trace s @ evs
     \<and> requires_with ts evs \<and> no_env_get evs"
  by (auto simp: createHttp_def use_result Let_def split: option.splits sum.splits)

lemma createHttp_typescript:
  "typescript (snd (createHttp w serverCallback s)) = typescript s"
  by (auto simp: createHttp_def use_result Let_def split: option.splits sum.splits)

lemma listen_trace:
  "\<exists>evs. trace (snd (listen w port host s)) = trace s @ evs \<and> requires_with ts evs"
  "typescript (snd (listen w port host s)) = typescript s"
  by (auto simp: listen_def split: option.splits)

lemma continues_requires:
  assumes "continues s s'"
  shows "typescript s' = typescript s"
    and "\<exists>evs. trace s' = trace s @ evs \<and> requires_with (typescript s) evs \<and> no_env_get evs"
  using assms by (simp_all add: continues_def same_config_def)

lemma start_body_trace:
  assumes "loadRcFile w s = (Inr (), s1)"
  shows "\<exists>evs. trace (snd (start_body w serverCallback s)) = trace s1 @ evs
           \<and> requires_with (typescript s1) evs"
    and "typescript (snd (start_body w serverCallback s)) = typescript s1"
proof -
  let ?ts = "typescript s1"
  obtain r s2 where b: "bootstrap w s = (r, s2)" by (cases "bootstrap w s")
  have c: "continues s1 s2" using bootstrap_continues [OF assms] b by simp
  obtain e2 where e2: "trace s2 = trace s1 @ e2" "requires_with ?ts e2" "typescript s2 = ?ts"
    using continues_requires [OF c] by blast
  obtain r3 s3 where h: "createHttp w serverCallback s2 = (r3, s3)"
    by (cases "createHttp w serverCallback s2")
  obtain e3 where e3: "trace s3 = trace s2 @ e3" "requires_with ?ts e3" "typescript s3 = ?ts"
    using createHttp_trace [of w serverCallback s2 ?ts] createHttp_typescript [of w serverCallback s2]
      h e2(3) by auto
  let ?s4 = "emit (EnvGet ''HOST'') (emit (EnvGet ''PORT'') (emit (IocUse ''Adonis/Src/Env'') s3))"
  obtain e5 where e5:
    "trace (snd (listen w (env_get w ''PORT'') (env_get w ''HOST'') ?s4)) = trace ?s4 @ e5"
    "requires_with ?ts e5"
    using listen_trace(1) [of w "env_get w ''PORT''" "env_get w ''HOST''" ?s4 ?ts] by blast
  have cases: "snd (start_body w serverCallback s) = s2
      \<or> snd (start_body w serverCallback s) = s3
      \<or> snd (start_body w serverCallback s) = emit (IocUse ''Adonis/Src/Env'') s3
      \<or> snd (start_body w serverCallback s) = snd (listen w (env_get w ''PORT'') (env_get w ''HOST'') ?s4)"
    using b h by (auto simp: start_body_def use_result split: sum.splits option.splits)
  have t4: "typescript (snd (listen w (env_get w ''PORT'') (env_get w ''HOST'') ?s4)) = ?ts"
    using e3(3) by (simp add: listen_trace(2))
  show "typescript (snd (start_body w serverCallback s)) = ?ts"
    using cases e2(3) e3(3) t4 by auto
  have 2: "trace s2 = trace s1 @ e2 \<and> requires_with ?ts e2" using e2 by simp
  have 3: "trace s3 = trace s1 @ (e2 @ e3) \<and> requires_with ?ts (e2 @ e3)" using e2 e3 by simp
  have 4: "trace (emit (IocUse ''Adonis/Src/Env'') s3) = trace s1 @ (e2 @ e3 @ [IocUse ''Adonis/Src/Env''])
      \<and> requires_with ?ts (e2 @ e3 @ [IocUse ''Adonis/Src/Env''])"
    using e2 e3 by simp
  have 5: "trace (snd (listen w (env_get w ''PORT'') (env_get w ''HOST'') ?s4))
        = trace s1 @ (e2 @ e3 @ [IocUse ''Adonis/Src/Env'', EnvGet ''PORT'', EnvGet ''HOST''] @ e5)
      \<and> requires_with ?ts (e2 @ e3 @ [IocUse ''Adonis/Src/Env'', EnvGet ''PORT'', EnvGet ''HOST''] @ e5)"
    using e2 e3 e5 by simp
  show "\<exists>evs. trace (snd (start_body w serverCallback s)) = trace s1 @ evs \<and> requires_with ?ts evs"
    using cases 2 3 4 5 by metis
qed

lemma requires_with_mem: "requires_with ts evs \<Longrightarrow> TsRequire p f \<in> set evs \<Longrightarrow> f = ts"
  by (auto simp: requires_with_def list_all_iff)

lemma startHttpServer_result:
  "startHttpServer w serverCallback s =
     (case fst (start_body w serverCallback (s\<lparr>run_intent := Some ''http''\<rparr>)) of
        Inl error \<Rightarrow> emit (ProcessExit 1) (emit (ConsoleLog error)
                       (snd (start_body w serverCallback (s\<lparr>run_intent := Some ''http''\<rparr>))))
      | Inr u \<Rightarrow> snd (start_body w serverCallback (s\<lparr>run_intent := Some ''http''\<rparr>)))"
  by (simp add: startHttpServer_def split: prod.splits sum.splits)

lemma startHttpServer_trace:
  "\<exists>evs. trace (startHttpServer w serverCallback s) =
            trace (snd (start_body w serverCallback (s\<lparr>run_intent := Some ''http''\<rparr>))) @ evs
          \<and> requires_with ts evs"
  "typescript (startHttpServer w serverCallback s) =
     typescript (snd (start_body w serverCallback (s\<lparr>run_intent := Some ''http''\<rparr>)))"
  by (auto simp: startHttpServer_result split: sum.splits)

text \<open>
  C10, amended. \<^verbatim>\<open>startHttpServer\<close> loads \<^verbatim>\<open>.adonisrc.json\<close> first, with the flag the
  instance holds at that moment, whatever the file declares: the \<^verbatim>\<open>typescript\<close> field is
  assigned only after the file was read. On a newly constructed \<^verbatim>\<open>Ignitor\<close> that flag
  is unset. Every module load after it passes the resolved flag, which is true exactly
  when the file declares \<^verbatim>\<open>typescript\<close> true.
\<close>

theorem rc_file_loaded_before_flag_assigned:
  "\<exists>rest. trace (startHttpServer w serverCallback s) =
             trace s @ TsRequire (join w [appRoot s, ''.adonisrc.json'']) (typescript s) # rest
      \<and> (\<forall>p f. TsRequire p f \<in> set rest \<longrightarrow>
             f = typescript (startHttpServer w serverCallback s))
      \<and> (\<forall>rc. tsRequire_rc w (join w [appRoot s, ''.adonisrc.json'']) (typescript s) = Inr rc \<longrightarrow>
             typescript (startHttpServer w serverCallback s) = Some (rc_typescript rc = Some True))
      \<and> typescript (Ignitor root) = None"
proof -
  let ?s = "s\<lparr>run_intent := Some ''http''\<rparr>"
  let ?rc = "TsRequire (join w [appRoot s, ''.adonisrc.json'']) (typescript s)"
  let ?final = "startHttpServer w serverCallback s"
  have f: "appRoot ?s = appRoot s" "typescript ?s = typescript s" "trace ?s = trace s"
    by simp_all
  have new: "typescript (Ignitor root) = None"
    by (simp add: Ignitor_def)
  obtain r s1 where l: "loadRcFile w ?s = (r, s1)" by (cases "loadRcFile w ?s")
  have loaded: "typescript s1 = Some (rc_typescript rc = Some True) \<and> r = Inr ()"
    if "tsRequire_rc w (join w [appRoot s, ''.adonisrc.json'']) (typescript s) = Inr rc" for rc
  proof -
    have "tsRequire_rc w (join w [appRoot ?s, ''.adonisrc.json'']) (typescript ?s) = Inr rc"
      using that by (simp only: f)
    from loadRcFile_loaded [OF this] l show ?thesis
      by (cases "rc_typescript rc") (auto simp: DEFAULTS_typescript_def)
  qed
  show ?thesis
  proof (cases r)
    case (Inl e)
    have s1: "s1 = emit ?rc ?s"
      using loadRcFile_failed [of w ?s e s1] l Inl by (simp only: f)
    have "start_body w serverCallback ?s = (Inl e, s1)"
      using l Inl by (simp add: start_body_def bootstrap_def)
    then have fin: "?final = emit (ProcessExit 1) (emit (ConsoleLog e) s1)"
      by (simp add: startHttpServer_def)
    have "trace ?final = trace s @ ?rc # [ConsoleLog e, ProcessExit 1]
        \<and> (\<forall>p f. TsRequire p f \<in> set [ConsoleLog e, ProcessExit 1] \<longrightarrow> f = typescript ?final)
        \<and> (\<forall>rc. tsRequire_rc w (join w [appRoot s, ''.adonisrc.json'']) (typescript s) = Inr rc \<longrightarrow>
               typescript ?final = Some (rc_typescript rc = Some True))"
      using loaded Inl by (auto simp: fin s1)
    then show ?thesis using new by blast
  next
    case (Inr u)
    then have l': "loadRcFile w ?s = (Inr (), s1)" using l by simp
    have t1: "trace s1 = trace s @ [?rc]"
      using loadRcFile_ok(1) [OF l'] by (simp only: f)
    obtain e1 where e1: "trace (snd (start_body w serverCallback ?s)) = trace s1 @ e1"
      "requires_with (typescript s1) e1"
      using start_body_trace(1) [OF l'] by blast
    have ts: "typescript (snd (start_body w serverCallback ?s)) = typescript s1"
      by (rule start_body_trace(2) [OF l'])
    obtain e2 where e2: "trace ?final = trace (snd (start_body w serverCallback ?s)) @ e2"
      "requires_with (typescript s1) e2"
      using startHttpServer_trace(1) [of w serverCallback s "typescript s1"] by blast
    have tf: "typescript ?final = typescript s1"
      using startHttpServer_trace(2) [of w serverCallback s] ts by simp
    have rw: "requires_with (typescript s1) (e1 @ e2)" using e1 e2 by simp
    have "trace ?final = trace s @ ?rc # (e1 @ e2)
        \<and> (\<forall>p f. TsRequire p f \<in> set (e1 @ e2) \<longrightarrow> f = typescript ?final)
        \<and> (\<forall>rc. tsRequire_rc w (join w [appRoot s, ''.adonisrc.json'']) (typescript s) = Inr rc \<longrightarrow>
               typescript ?final = Some (rc_typescript rc = Some True))"
      using loaded requires_with_mem [OF rw] by (simp add: e2(1) e1(1) t1 tf)
    then show ?thesis using new by blast
  qed
qed

lemma sample_run_trace:
  "trace (startHttpServer (sample_world (Inr sample_rc) sample_app) None (Ignitor ''/app'')) =
     [TsRequire ''/app/.adonisrc.json'' None, NewIoc (Some True),
      IocSingleton ''Adonis/Src/Helpers'', IocAlias ''Adonis/Src/Helpers'' ''Helpers'',
      TsRequire ''/app/start/app'' (Some True),
      UseProviders [''A'', ''B''], ProviderRegister ''A'', ProviderRegister ''B'',
      IocAlias ''My/Route'' ''Route'', ProviderBoot ''A'', ProviderBoot ''B'',
      IocAutoload ''/app/lib'' ''Lib'',
      TsRequire ''/app/start/routes'' (Some True), TsRequire ''/app/start/kernel'' (Some True),
      IocUse ''Adonis/Src/Server'', IocUse ''Adonis/Src/Route'',
      RouterCommit, ServerOptimize, HandleBind, HandleBind, CreateServer,
      IocUse ''Adonis/Src/Env'', EnvGet ''PORT'', EnvGet ''HOST'',
      ServerListen (Some ''3333'') (Some ''127.0.0.1'')]"
  by code_simp

theorem rc_file_loaded_before_flag_assigned_witness:
  "typescript (Ignitor ''/app'') = None
   \<and> tsRequire_rc (sample_world (Inr sample_rc) sample_app)
      (join (sample_world (Inr sample_rc) sample_app) [appRoot (Ignitor ''/app''), ''.adonisrc.json''])
      (typescript (Ignitor ''/app'')) = Inr sample_rc
   \<and> rc_typescript sample_rc = Some True
   \<and> hd (trace (startHttpServer (sample_world (Inr sample_rc) sample_app) None (Ignitor ''/app'')))
       = TsRequire ''/app/.adonisrc.json'' None
   \<and> TsRequire ''/app/start/app'' (Some True)
       \<in> set (tl (trace (startHttpServer (sample_world (Inr sample_rc) sample_app) None (Ignitor ''/app''))))
   \<and> typescript (startHttpServer (sample_world (Inr sample_rc) sample_app) None (Ignitor ''/app''))
       = Some True"
proof -
  let ?w = "sample_world (Inr sample_rc) sample_app"
  let ?s = "Ignitor ''/app''"
  let ?final = "startHttpServer ?w None ?s"
  have n: "typescript ?s = None" "appRoot ?s = ''/app''" "trace ?s = []"
    by (simp_all add: Ignitor_def)
  have h: "tsRequire_rc ?w (join ?w [appRoot ?s, ''.adonisrc.json'']) (typescript ?s) = Inr sample_rc"
    by simp
  have d: "rc_typescript sample_rc = Some True"
    by (simp add: sample_rc_def)
  obtain rest where r:
    "trace ?final = trace ?s @ TsRequire (join ?w [appRoot ?s, ''.adonisrc.json'']) (typescript ?s) # rest"
    "\<forall>rc. tsRequire_rc ?w (join ?w [appRoot ?s, ''.adonisrc.json'']) (typescript ?s) = Inr rc \<longrightarrow>
       typescript ?final = Some (rc_typescript rc = Some True)"
    using rc_file_loaded_before_flag_assigned [of ?w None ?s] by blast
  have ts: "typescript ?final = Some True"
    using r(2) h d by simp
  have hd: "hd (trace ?final) = TsRequire ''/app/.adonisrc.json'' None"
    using r(1) by (simp add: n)
  have mem: "TsRequire ''/app/start/app'' (Some True) \<in> set (tl (trace ?final))"
    by (simp add: sample_run_trace)
  show ?thesis
    using n(1) h d hd mem ts by (intro conjI)
qed

text \<open>
  C10, as the claim states it, fails: nothing resets the \<^verbatim>\<open>typescript\<close> field when
  \<^verbatim>\<open>startHttpServer\<close> begins. After a first run on a file that declares \<^verbatim>\<open>typescript\<close>
  true, a second run on the same instance loads \<^verbatim>\<open>.adonisrc.json\<close> with the flag true.
\<close>

theorem second_run_keeps_flag_counterexample:
  "typescript (startHttpServer (sample_world (Inr sample_rc) sample_app) None (Ignitor ''/app''))
     = Some True
   \<and> length (trace (startHttpServer (sample_world (Inr sample_rc) sample_app) None (Ignitor ''/app'')))
     = 25
   \<and> trace (startHttpServer (sample_world (Inr sample_rc) sample_app) None
              (startHttpServer (sample_world (Inr sample_rc) sample_app) None (Ignitor ''/app''))) ! 25
     = TsRequire ''/app/.adonisrc.json'' (Some True)"
  by code_simp

lemma bootstrap_no_env_get:
  "\<exists>evs. trace (snd (bootstrap w s)) = trace s @ evs \<and> no_env_get evs"
proof (cases "loadRcFile w s")
  case (Pair r s1)
  show ?thesis
  proof (cases r)
    case (Inl e)
    have "snd (bootstrap w s) = emit (TsRequire (join w [appRoot s, ''.adonisrc.json'']) (typescript s)) s"
      using loadRcFile_failed [of w s e s1] Pair Inl by (simp add: bootstrap_def)
    then have "trace (snd (bootstrap w s)) =
        trace s @ [TsRequire (join w [appRoot s, ''.adonisrc.json'']) (typescript s)]
      \<and> no_env_get [TsRequire (join w [appRoot s, ''.adonisrc.json'']) (typescript s)]"
      by simp
    then show ?thesis by blast
  next
    case (Inr u)
    then have l: "loadRcFile w s = (Inr (), s1)" using Pair by simp
    obtain evs where e: "trace (snd (bootstrap w s)) = trace s1 @ evs" "no_env_get evs"
      using continues_requires(2) [OF bootstrap_continues [OF l]] by blast
    have "trace (snd (bootstrap w s)) =
        trace s @ (TsRequire (join w [appRoot s, ''.adonisrc.json'']) (typescript s) # evs)
      \<and> no_env_get (TsRequire (join w [appRoot s, ''.adonisrc.json'']) (typescript s) # evs)"
      using e loadRcFile_ok(1) [OF l] by simp
    then show ?thesis by blast
  qed
qed

lemma listen_result:
  assumes "server s = Some t"
  shows "listen w port host s =
           (case server_listen w t port host of Some e \<Rightarrow> Inl e | None \<Rightarrow> Inr (),
            emit (ServerListen port host) s)"
  using assms by (simp add: listen_def split: option.splits)

text \<open>
  C9. After a bootstrap that succeeded, and when the container resolves the server,
  the router and the environment and the router and server calls return, the launch
  does, in this order: resolve the server, resolve the router, commit the routes,
  optimize the server, bind the handler; then either call the override with the bound
  handler and keep what it returns as the transport, or bind the handler once more
  and create node's server from it; and only then resolve the environment, read
  \<^verbatim>\<open>PORT\<close> and \<^verbatim>\<open>HOST\<close> from it and call \<^verbatim>\<open>listen\<close> on the transport with the two
  values. The bootstrap before it reads nothing from the environment.
\<close>

theorem http_launch_sequence:
  assumes "bootstrap w (s\<lparr>run_intent := Some ''http''\<rparr>) = (Inr (), s1)"
    and "ioc_use w (ioc s1) ''Adonis/Src/Server'' = None"
    and "ioc_use w (ioc s1) ''Adonis/Src/Route'' = None"
    and "router_commit w = None"
    and "server_optimize w = None"
    and "ioc_use w (ioc s1) ''Adonis/Src/Env'' = None"
    and "serverCallback = None \<and> t = NodeServer
         \<or> (\<exists>cb r. serverCallback = Some cb \<and> cb BoundHandle = Inr r \<and> t = FromCallback r)"
  shows "trace (startHttpServer w serverCallback s) =
           trace s1
           @ [IocUse ''Adonis/Src/Server'', IocUse ''Adonis/Src/Route'', RouterCommit, ServerOptimize,
              HandleBind]
           @ (case serverCallback of Some cb \<Rightarrow> [ServerCallback] | None \<Rightarrow> [HandleBind, CreateServer])
           @ [IocUse ''Adonis/Src/Env'', EnvGet ''PORT'', EnvGet ''HOST'',
              ServerListen (env_get w ''PORT'') (env_get w ''HOST'')]
           @ (case server_listen w t (env_get w ''PORT'') (env_get w ''HOST'') of
                None \<Rightarrow> [] | Some e \<Rightarrow> [ConsoleLog e, ProcessExit 1])
         \<and> server (startHttpServer w serverCallback s) = Some t
         \<and> (\<exists>evs. trace s1 = trace s @ evs \<and> no_env_get evs)"
proof -
  let ?s = "s\<lparr>run_intent := Some ''http''\<rparr>"
  let ?pre = "[IocUse ''Adonis/Src/Server'', IocUse ''Adonis/Src/Route'', RouterCommit, ServerOptimize,
              HandleBind]"
  let ?mid = "case serverCallback of Some cb \<Rightarrow> [ServerCallback] | None \<Rightarrow> [HandleBind, CreateServer]"
  obtain s2 where c: "createHttp w serverCallback s1 = (Inr (), s2)"
    and s2: "trace s2 = trace s1 @ ?pre @ ?mid" "server s2 = Some t" "ioc s2 = ioc s1"
  proof (cases serverCallback)
    case None
    then have t: "t = NodeServer" using assms(7) by simp
    show ?thesis
      using that createHttp_launched(1) [OF assms(2-5)] None t by simp
  next
    case (Some cb)
    then obtain r where r: "cb BoundHandle = Inr r" "t = FromCallback r" using assms(7) by auto
    show ?thesis
      using that createHttp_launched(2) [where cb = cb and t = r, OF assms(2-5) r(1)] Some r(2) by simp
  qed
  let ?s3 = "emit (EnvGet ''HOST'') (emit (EnvGet ''PORT'') (emit (IocUse ''Adonis/Src/Env'') s2))"
  have sv: "server ?s3 = Some t" using s2(2) by simp
  have body: "start_body w serverCallback ?s =
      listen w (env_get w ''PORT'') (env_get w ''HOST'') ?s3"
    using assms(1,6) c s2(3) by (simp add: start_body_def use_result)
  have env: "\<exists>evs. trace s1 = trace s @ evs \<and> no_env_get evs"
    using bootstrap_no_env_get [of w ?s] assms(1) by simp
  show ?thesis
  proof (cases "server_listen w t (env_get w ''PORT'') (env_get w ''HOST'')")
    case None
    then have "startHttpServer w serverCallback s =
        emit (ServerListen (env_get w ''PORT'') (env_get w ''HOST'')) ?s3"
      by (simp add: startHttpServer_def body listen_result [OF sv])
    then show ?thesis using None s2 env by simp
  next
    case (Some e)
    then have "startHttpServer w serverCallback s =
        emit (ProcessExit 1) (emit (ConsoleLog e)
          (emit (ServerListen (env_get w ''PORT'') (env_get w ''HOST'')) ?s3))"
      by (simp add: startHttpServer_def body listen_result [OF sv])
    then show ?thesis using Some s2 env by simp
  qed
qed

lemma sample_bootstrap_ok:
  "fst (bootstrap (sample_world (Inl ENOENT) sample_app) ((Ignitor ''/app'')\<lparr>run_intent := Some ''http''\<rparr>))
     = Inr ()"
  by code_simp

lemma sample_bootstrap_trace:
  "trace (snd (bootstrap (sample_world (Inl ENOENT) sample_app)
                 ((Ignitor ''/app'')\<lparr>run_intent := Some ''http''\<rparr>))) =
     [TsRequire ''/app/.adonisrc.json'' None, NewIoc (Some False),
      IocSingleton ''Adonis/Src/Helpers'', IocAlias ''Adonis/Src/Helpers'' ''Helpers'',
      TsRequire ''/app/start/app'' (Some False),
      UseProviders [''A'', ''B''], ProviderRegister ''A'', ProviderRegister ''B'',
      IocAlias ''My/Route'' ''Route'', ProviderBoot ''A'', ProviderBoot ''B'',
      IocAutoload ''/app/app'' ''App'']"
  by code_simp

theorem http_launch_sequence_witness:
  "fst (bootstrap (sample_world (Inl ENOENT) sample_app) ((Ignitor ''/app'')\<lparr>run_intent := Some ''http''\<rparr>))
     = Inr ()
   \<and> router_commit (sample_world (Inl ENOENT) sample_app) = None
   \<and> server_optimize (sample_world (Inl ENOENT) sample_app) = None
   \<and> (\<lambda>h. Inr ''https'' :: js_error + string) BoundHandle = Inr ''https''
   \<and> trace (startHttpServer (sample_world (Inl ENOENT) sample_app) (Some (\<lambda>h. Inr ''https''))
              (Ignitor ''/app'')) =
       [TsRequire ''/app/.adonisrc.json'' None, NewIoc (Some False),
        IocSingleton ''Adonis/Src/Helpers'', IocAlias ''Adonis/Src/Helpers'' ''Helpers'',
        TsRequire ''/app/start/app'' (Some False),
        UseProviders [''A'', ''B''], ProviderRegister ''A'', ProviderRegister ''B'',
        IocAlias ''My/Route'' ''Route'', ProviderBoot ''A'', ProviderBoot ''B'',
        IocAutoload ''/app/app'' ''App'',
        IocUse ''Adonis/Src/Server'', IocUse ''Adonis/Src/Route'', RouterCommit, ServerOptimize,
        HandleBind, ServerCallback,
        IocUse ''Adonis/Src/Env'', EnvGet ''PORT'', EnvGet ''HOST'',
        ServerListen (Some ''3333'') (Some ''127.0.0.1'')]
   \<and> server (startHttpServer (sample_world (Inl ENOENT) sample_app) (Some (\<lambda>h. Inr ''https''))
               (Ignitor ''/app'')) = Some (FromCallback ''https'')
   \<and> trace (startHttpServer (sample_world (Inl ENOENT) sample_app) None (Ignitor ''/app'')) =
       [TsRequire ''/app/.adonisrc.json'' None, NewIoc (Some False),
        IocSingleton ''Adonis/Src/Helpers'', IocAlias ''Adonis/Src/Helpers'' ''Helpers'',
        TsRequire ''/app/start/app'' (Some False),
        UseProviders [''A'', ''B''], ProviderRegister ''A'', ProviderRegister ''B'',
        IocAlias ''My/Route'' ''Route'', ProviderBoot ''A'', ProviderBoot ''B'',
        IocAutoload ''/app/app'' ''App'',
        IocUse ''Adonis/Src/Server'', IocUse ''Adonis/Src/Route'', RouterCommit, ServerOptimize,
        HandleBind, HandleBind, CreateServer,
        IocUse ''Adonis/Src/Env'', EnvGet ''PORT'', EnvGet ''HOST'',
        ServerListen (Some ''3333'') (Some ''127.0.0.1'')]
   \<and> server (startHttpServer (sample_world (Inl ENOENT) sample_app) None (Ignitor ''/app''))
       = Some NodeServer"
proof -
  let ?w = "sample_world (Inl ENOENT) sample_app"
  let ?s0 = "(Ignitor ''/app'')\<lparr>run_intent := Some ''http''\<rparr>"
  let ?cb = "\<lambda>h::handler. Inr ''https'' :: js_error + string"
  have h1: "bootstrap ?w ?s0 = (Inr (), snd (bootstrap ?w ?s0))"
    using sample_bootstrap_ok by (simp add: prod_eq_iff)
  have h2: "ioc_use ?w (ioc (snd (bootstrap ?w ?s0))) ''Adonis/Src/Server'' = None"
    and h3: "ioc_use ?w (ioc (snd (bootstrap ?w ?s0))) ''Adonis/Src/Route'' = None"
    and h4: "router_commit ?w = None"
    and h5: "server_optimize ?w = None"
    and h6: "ioc_use ?w (ioc (snd (bootstrap ?w ?s0))) ''Adonis/Src/Env'' = None"
    by simp_all
  have h7: "Some ?cb = None \<and> FromCallback ''https'' = NodeServer
      \<or> (\<exists>cb r. Some ?cb = Some cb \<and> cb BoundHandle = Inr r \<and> FromCallback ''https'' = FromCallback r)"
    by simp
  have h7': "(None :: (handler \<Rightarrow> js_error + string) option) = None \<and> NodeServer = NodeServer
      \<or> (\<exists>cb r. (None :: (handler \<Rightarrow> js_error + string) option) = Some cb
            \<and> cb BoundHandle = Inr r \<and> NodeServer = FromCallback r)"
    by simp
  have a: "trace (startHttpServer ?w (Some ?cb) (Ignitor ''/app'')) =
       [TsRequire ''/app/.adonisrc.json'' None, NewIoc (Some False),
        IocSingleton ''Adonis/Src/Helpers'', IocAlias ''Adonis/Src/Helpers'' ''Helpers'',
        TsRequire ''/app/start/app'' (Some False),
        UseProviders [''A'', ''B''], ProviderRegister ''A'', ProviderRegister ''B'',
        IocAlias ''My/Route'' ''Route'', ProviderBoot ''A'', ProviderBoot ''B'',
        IocAutoload ''/app/app'' ''App'',
        IocUse ''Adonis/Src/Server'', IocUse ''Adonis/Src/Route'', RouterCommit, ServerOptimize,
        HandleBind, ServerCallback,
        IocUse ''Adonis/Src/Env'', EnvGet ''PORT'', EnvGet ''HOST'',
        ServerListen (Some ''3333'') (Some ''127.0.0.1'')]
     \<and> server (startHttpServer ?w (Some ?cb) (Ignitor ''/app'')) = Some (FromCallback ''https'')"
    using http_launch_sequence [OF h1 h2 h3 h4 h5 h6 h7]
    by (simp add: sample_bootstrap_trace)
  have b: "trace (startHttpServer ?w None (Ignitor ''/app'')) =
       [TsRequire ''/app/.adonisrc.json'' None, NewIoc (Some False),
        IocSingleton ''Adonis/Src/Helpers'', IocAlias ''Adonis/Src/Helpers'' ''Helpers'',
        TsRequire ''/app/start/app'' (Some False),
        UseProviders [''A'', ''B''], ProviderRegister ''A'', ProviderRegister ''B'',
        IocAlias ''My/Route'' ''Route'', ProviderBoot ''A'', ProviderBoot ''B'',
        IocAutoload ''/app/app'' ''App'',
        IocUse ''Adonis/Src/Server'', IocUse ''Adonis/Src/Route'', RouterCommit, ServerOptimize,
        HandleBind, HandleBind, CreateServer,
        IocUse ''Adonis/Src/Env'', EnvGet ''PORT'', EnvGet ''HOST'',
        ServerListen (Some ''3333'') (Some ''127.0.0.1'')]
     \<and> server (startHttpServer ?w None (Ignitor ''/app'')) = Some NodeServer"
    using http_launch_sequence [OF h1 h2 h3 h4 h5 h6 h7']
    by (simp add: sample_bootstrap_trace)
  show ?thesis
    using sample_bootstrap_ok h4 h5 a b by simp
qed

section \<open>The order of the phases\<close>

lemma prefix_takeWhile_one: "prefix (takeWhile P xs @ take 1 (dropWhile P xs)) xs"
  by (induction xs) simp_all

lemma takeWhile_one_all: "list_all P xs \<Longrightarrow> takeWhile P xs @ take 1 (dropWhile P xs) = xs"
  by (induction xs) simp_all

lemma preload_event_config: "same_config s s' \<Longrightarrow> preload_event w s' = preload_event w s"
  by (simp add: preload_event_def same_config_def fun_eq_iff)

lemma preloadFiles_events:
  assumes "same_config s1 s"
  shows "\<exists>evs. trace (snd (preloadFiles w s)) = trace s @ evs
           \<and> prefix evs (map (preload_event w s1) (filter (preload_filter (run_intent s1)) (preloads s1)))
           \<and> (fst (preloadFiles w s) = Inr () \<longrightarrow>
                evs = map (preload_event w s1) (filter (preload_filter (run_intent s1)) (preloads s1)))"
proof -
  let ?sel = "filter (preload_filter (run_intent s)) (preloads s)"
  let ?got = "takeWhile (preload_ok w s) ?sel @ take 1 (dropWhile (preload_ok w s) ?sel)"
  have eq: "filter (preload_filter (run_intent s1)) (preloads s1) = ?sel"
    using assms by (simp add: same_config_def)
  have ev: "preload_event w s1 = preload_event w s"
    using preload_event_config [OF assms] by simp
  have 1: "trace (snd (preloadFiles w s)) = trace s @ map (preload_event w s) ?got"
    unfolding preloadFiles_def by (rule preload_each_trace)
  have 2: "prefix (map (preload_event w s) ?got) (map (preload_event w s) ?sel)"
    by (rule map_mono_prefix [OF prefix_takeWhile_one])
  have 3: "fst (preloadFiles w s) = Inr () \<longrightarrow> map (preload_event w s) ?got = map (preload_event w s) ?sel"
  proof
    assume "fst (preloadFiles w s) = Inr ()"
    then have "list_all (preload_ok w s) ?sel"
      by (simp add: preloadFiles_def preload_each_all_ok)
    then have "?got = ?sel" by (rule takeWhile_one_all)
    then show "map (preload_event w s) ?got = map (preload_event w s) ?sel" by (rule arg_cong)
  qed
  show ?thesis
    unfolding eq ev using 1 2 3 by blast
qed

lemma user_aliases_boot:
  assumes "loadAppFile w s = (Inr app, s1)"
    and "provider_list (run_intent s1) app = Inr list"
    and "registrar_register w list (emit (UseProviders list) s1) = (Inr (), s2)"
  shows "\<exists>j\<le>length list.
           trace (snd (bootProviders w s)) =
             trace s1 @ [UseProviders list] @ map ProviderRegister list
               @ alias_events (case aliases app of None \<Rightarrow> [] | Some al \<Rightarrow> al)
               @ map ProviderBoot (take j list)
           \<and> (fst (bootProviders w s) = Inr () \<longrightarrow> j = length list)"
proof -
  let ?al = "case aliases app of None \<Rightarrow> [] | Some al \<Rightarrow> al"
  have bp: "bootProviders w s = registrar_boot w list (apply_aliases ?al s2)"
    by (rule registration_done(1) [OF assms])
  obtain j where j: "j \<le> length list"
    "trace (snd (registrar_boot w list (apply_aliases ?al s2)))
       = trace (apply_aliases ?al s2) @ map ProviderBoot (take j list)"
    "fst (registrar_boot w list (apply_aliases ?al s2)) = Inr () \<longrightarrow> j = length list"
    using registrar_boot_trace [of list w "apply_aliases ?al s2"] by blast
  have "trace (snd (bootProviders w s)) =
          trace s1 @ [UseProviders list] @ map ProviderRegister list @ alias_events ?al
            @ map ProviderBoot (take j list)
        \<and> (fst (bootProviders w s) = Inr () \<longrightarrow> j = length list)"
    using j(2,3) by (simp add: bp registration_done(2) [OF assms])
  with j(1) show ?thesis by blast
qed

lemma bootProviders_events:
  assumes "loadAppFile w s = (Inr app, s1)"
    and "provider_list (run_intent s1) app = Inr list"
  shows "\<exists>evs. trace (snd (bootProviders w s)) = trace s1 @ evs
           \<and> prefix evs ([UseProviders list] @ map ProviderRegister list
                          @ alias_events (case aliases app of None \<Rightarrow> [] | Some al \<Rightarrow> al)
                          @ map ProviderBoot list)
           \<and> (fst (bootProviders w s) = Inr () \<longrightarrow>
                evs = [UseProviders list] @ map ProviderRegister list
                        @ alias_events (case aliases app of None \<Rightarrow> [] | Some al \<Rightarrow> al)
                        @ map ProviderBoot list)"
proof -
  let ?al = "case aliases app of None \<Rightarrow> [] | Some al \<Rightarrow> al"
  obtain r s2 where r: "registrar_register w list (emit (UseProviders list) s1) = (r, s2)"
    by (cases "registrar_register w list (emit (UseProviders list) s1)")
  show ?thesis
  proof (cases r)
    case (Inl e)
    then have r': "registrar_register w list (emit (UseProviders list) s1) = (Inl e, s2)"
      using r by simp
    obtain i where i: "trace s2 = trace s1 @ [UseProviders list] @ map ProviderRegister (take i list)"
      using registration_failed(2) [OF assms r'] by blast
    have p: "prefix ([UseProviders list] @ map ProviderRegister (take i list))
               ([UseProviders list] @ map ProviderRegister list @ alias_events ?al @ map ProviderBoot list)"
      by (simp add: take_map [symmetric] take_is_prefix prefix_prefix)
    have "trace (snd (bootProviders w s)) = trace s1 @ ([UseProviders list] @ map ProviderRegister (take i list))
        \<and> fst (bootProviders w s) \<noteq> Inr ()"
      using i by (simp add: registration_failed(1) [OF assms r'])
    then show ?thesis using p by blast
  next
    case (Inr u)
    then have r': "registrar_register w list (emit (UseProviders list) s1) = (Inr (), s2)"
      using r by simp
    obtain j where j: "trace (snd (bootProviders w s)) =
                    trace s1 @ [UseProviders list] @ map ProviderRegister list
                      @ alias_events ?al @ map ProviderBoot (take j list)"
      "fst (bootProviders w s) = Inr () \<longrightarrow> j = length list"
      using user_aliases_boot [OF assms r'] by blast
    have p: "prefix ([UseProviders list] @ map ProviderRegister list
                      @ alias_events ?al @ map ProviderBoot (take j list))
               ([UseProviders list] @ map ProviderRegister list @ alias_events ?al @ map ProviderBoot list)"
      by (simp add: take_map [symmetric] take_is_prefix)
    have full: "fst (bootProviders w s) = Inr () \<longrightarrow>
        [UseProviders list] @ map ProviderRegister list @ alias_events ?al @ map ProviderBoot (take j list)
        = [UseProviders list] @ map ProviderRegister list @ alias_events ?al @ map ProviderBoot list"
      using j(2) by simp
    show ?thesis using j(1) p full by blast
  qed
qed

lemma bootstrap_order_loaded:
  assumes "loadRcFile w s = (Inr (), s1)"
    and "js_get (directories s1) ''start'' = Some start"
    and "tsRequire_app w (join w [appRoot s1, start, ''app'']) (typescript s1) = Inr app"
    and "provider_list (run_intent s1) app = Inr list"
  shows "\<exists>evs. trace (snd (bootstrap w s)) = trace s1 @ evs
           \<and> prefix evs
                (bootstrap_events w s1 start (case aliases app of None \<Rightarrow> [] | Some al \<Rightarrow> al) list)
           \<and> (fst (bootstrap w s) = Inr () \<longrightarrow>
                evs = bootstrap_events w s1 start (case aliases app of None \<Rightarrow> [] | Some al \<Rightarrow> al) list)"
proof -
  let ?al = "case aliases app of None \<Rightarrow> [] | Some al \<Rightarrow> al"
  let ?h = "bindHelpers (instantiateIoCContainer s1)"
  let ?H = "[NewIoc (typescript s1), IocSingleton ''Adonis/Src/Helpers'',
             IocAlias ''Adonis/Src/Helpers'' ''Helpers'',
             TsRequire (join w [appRoot s1, start, ''app'']) (typescript s1)]"
  let ?BP = "[UseProviders list] @ map ProviderRegister list @ alias_events ?al @ map ProviderBoot list"
  let ?AU = "autoload_events w (appRoot s1) (autoloads s1)"
  let ?PL = "map (preload_event w s1) (filter (preload_filter (run_intent s1)) (preloads s1))"
  let ?s2 = "emit (TsRequire (join w [appRoot s1, start, ''app'']) (typescript s1)) ?h"
  have canon: "bootstrap_events w s1 start ?al list = ?H @ ?BP @ ?AU @ ?PL"
    by (simp add: bootstrap_events_def)
  have cfg: "same_config s1 ?h" by (rule helpers_config)
  have r: "appRoot ?h = appRoot s1" "typescript ?h = typescript s1"
    using cfg by (simp_all add: same_config_def)
  have start: "js_get (directories ?h) ''start'' = Some start"
    using cfg assms(2) by (simp add: same_config_def)
  have app: "tsRequire_app w (join w [appRoot ?h, start, ''app'']) (typescript ?h) = Inr app"
    using assms(3) by (simp only: r)
  have la: "loadAppFile w ?h =
      (case validate_exports start app requiredExports of Some e \<Rightarrow> Inl e | None \<Rightarrow> Inr app, ?s2)"
    using loadAppFile_loaded [OF start app] by (simp only: r)
  have t2: "trace ?s2 = trace s1 @ ?H"
    by (simp add: helpers_trace)
  have cfg2: "same_config s1 ?s2"
    using cfg by (simp add: same_config_def)
  show ?thesis
  proof (cases "validate_exports start app requiredExports")
    case (Some e)
    have "bootstrap w s = (Inl e, ?s2)"
      using la Some by (simp add: bootstrap_unfold [OF assms(1)] bootProviders_def)
    then have "trace (snd (bootstrap w s)) = trace s1 @ ?H \<and> fst (bootstrap w s) \<noteq> Inr ()"
      using t2 by simp
    moreover have "prefix ?H (bootstrap_events w s1 start ?al list)"
      unfolding canon by (rule prefixI) simp
    ultimately show ?thesis by blast
  next
    case None
    then have la': "loadAppFile w ?h = (Inr app, ?s2)" using la by simp
    have pl: "provider_list (run_intent ?s2) app = Inr list"
      using assms(4) cfg2 by (simp add: same_config_def)
    obtain e1 where e1: "trace (snd (bootProviders w ?h)) = trace ?s2 @ e1" "prefix e1 ?BP"
      "fst (bootProviders w ?h) = Inr () \<longrightarrow> e1 = ?BP"
      using bootProviders_events [OF la' pl] by blast
    obtain rb s3 where bp: "bootProviders w ?h = (rb, s3)" by (cases "bootProviders w ?h")
    have t3: "trace s3 = trace s1 @ ?H @ e1" using e1(1) bp t2 by simp
    show ?thesis
    proof (cases rb)
      case (Inl e)
      have "bootstrap w s = (Inl e, s3)"
        using bp Inl by (simp add: bootstrap_unfold [OF assms(1)])
      then have "trace (snd (bootstrap w s)) = trace s1 @ (?H @ e1) \<and> fst (bootstrap w s) \<noteq> Inr ()"
        using t3 by simp
      moreover have "prefix (?H @ e1) (bootstrap_events w s1 start ?al list)"
      proof -
        have "prefix e1 (?BP @ (?AU @ ?PL))" by (rule prefix_prefix [OF e1(2)])
        then have "prefix (?H @ e1) (?H @ (?BP @ (?AU @ ?PL)))" by (simp only: same_prefix_prefix)
        then show ?thesis unfolding canon by (simp only: append_assoc)
      qed
      ultimately show ?thesis by blast
    next
      case (Inr u)
      have e1': "e1 = ?BP" using e1(3) bp Inr by simp
      have cfg3: "same_config s1 s3"
        using same_config_trans [OF cfg continues_config [OF bootProviders_continues [of ?h w]]] bp
        by simp
      let ?s4 = "registerAutoloads w s3"
      have cfg4: "same_config s1 ?s4"
        by (rule same_config_trans [OF cfg3 registerAutoloads_config])
      have t4: "trace ?s4 = trace s1 @ ?H @ ?BP @ ?AU"
        using cfg3 by (simp add: registerAutoloads_trace t3 e1' same_config_def)
      obtain e2 where e2: "trace (snd (preloadFiles w ?s4)) = trace ?s4 @ e2" "prefix e2 ?PL"
        "fst (preloadFiles w ?s4) = Inr () \<longrightarrow> e2 = ?PL"
        using preloadFiles_events [OF cfg4] by blast
      have b: "bootstrap w s = preloadFiles w ?s4"
        using bp Inr by (simp add: bootstrap_unfold [OF assms(1)])
      have "trace (snd (bootstrap w s)) = trace s1 @ (?H @ ?BP @ ?AU @ e2)"
        using e2(1) t4 by (simp add: b)
      moreover have "prefix (?H @ ?BP @ ?AU @ e2) (bootstrap_events w s1 start ?al list)"
        unfolding canon using e2(2) by simp
      moreover have "fst (bootstrap w s) = Inr () \<longrightarrow>
          ?H @ ?BP @ ?AU @ e2 = bootstrap_events w s1 start ?al list"
        unfolding canon using e2(3) by (simp add: b)
      ultimately show ?thesis by blast
    qed
  qed
qed

lemma loadAppFile_no_start:
  assumes "js_get (directories s) ''start'' = None"
  shows "loadAppFile w s = (Inl TypeError, s)"
  using assms by (simp add: loadAppFile_def)

lemma loadAppFile_load_failed:
  assumes "js_get (directories s) ''start'' = Some start"
    and "tsRequire_app w (join w [appRoot s, start, ''app'']) (typescript s) = Inl e"
  shows "loadAppFile w s = (Inl e, emit (TsRequire (join w [appRoot s, start, ''app'']) (typescript s)) s)"
  using assms by (simp add: loadAppFile_def require_def)

lemma bootstrap_app_failed:
  assumes "loadRcFile w s = (Inr (), s1)"
    and "loadAppFile w (bindHelpers (instantiateIoCContainer s1)) = (Inl e, s2)"
  shows "bootstrap w s = (Inl e, s2)"
  using assms(2) by (simp add: bootstrap_unfold [OF assms(1)] bootProviders_def)

lemma provider_list_failed:
  assumes "provider_list i app = Inl e"
  shows "\<not> truthy (providers app) \<or> \<not> truthy (aceProviders app) \<or> \<not> truthy (commands app)"
  using assms
  by (cases "providers app"; cases "aceProviders app")
     (auto simp: provider_list_def split: if_splits)

lemma bootstrap_events_starts:
  "prefix [NewIoc (typescript s1), IocSingleton ''Adonis/Src/Helpers'',
           IocAlias ''Adonis/Src/Helpers'' ''Helpers'']
     (bootstrap_events w s1 start al list)"
  "prefix [NewIoc (typescript s1), IocSingleton ''Adonis/Src/Helpers'',
           IocAlias ''Adonis/Src/Helpers'' ''Helpers'',
           TsRequire (join w [appRoot s1, start, ''app'']) (typescript s1)]
     (bootstrap_events w s1 start al list)"
  by (simp_all add: bootstrap_events_def)

lemma bootstrap_order_resolved:
  assumes "loadRcFile w s = (Inr (), s1)"
  shows "\<exists>evs. trace (snd (bootstrap w s)) = trace s1 @ evs
           \<and> prefix evs (bootstrap_events w s1 (start_dir s1) (user_aliases w s1) (chosen_providers w s1))
           \<and> (fst (bootstrap w s) = Inr () \<longrightarrow>
                evs = bootstrap_events w s1 (start_dir s1) (user_aliases w s1) (chosen_providers w s1))"
proof -
  let ?h = "bindHelpers (instantiateIoCContainer s1)"
  let ?H3 = "[NewIoc (typescript s1), IocSingleton ''Adonis/Src/Helpers'',
              IocAlias ''Adonis/Src/Helpers'' ''Helpers'']"
  let ?canon = "bootstrap_events w s1 (start_dir s1) (user_aliases w s1) (chosen_providers w s1)"
  have cfg: "same_config s1 ?h" by (rule helpers_config)
  have r: "appRoot ?h = appRoot s1" "typescript ?h = typescript s1" "directories ?h = directories s1"
    using cfg by (simp_all add: same_config_def)
  show ?thesis
  proof (cases "js_get (directories s1) ''start''")
    case None
    have "loadAppFile w ?h = (Inl TypeError, ?h)"
      by (rule loadAppFile_no_start) (simp add: r None)
    then have b: "bootstrap w s = (Inl TypeError, ?h)"
      by (rule bootstrap_app_failed [OF assms])
    have "trace (snd (bootstrap w s)) = trace s1 @ ?H3 \<and> fst (bootstrap w s) \<noteq> Inr ()"
      by (simp add: b helpers_trace)
    then show ?thesis using bootstrap_events_starts(1) by blast
  next
    case (Some start)
    have sd: "start_dir s1 = start" by (simp add: start_dir_def Some)
    let ?H4 = "?H3 @ [TsRequire (join w [appRoot s1, start, ''app'']) (typescript s1)]"
    have p4: "prefix ?H4 ?canon"
      using bootstrap_events_starts(2) [of s1 w start] by (simp add: sd)
    show ?thesis
    proof (cases "tsRequire_app w (join w [appRoot s1, start, ''app'']) (typescript s1)")
      case (Inl e)
      have "loadAppFile w ?h =
          (Inl e, emit (TsRequire (join w [appRoot ?h, start, ''app'']) (typescript ?h)) ?h)"
        by (rule loadAppFile_load_failed) (simp_all add: r Some Inl)
      then have b: "bootstrap w s =
          (Inl e, emit (TsRequire (join w [appRoot ?h, start, ''app'']) (typescript ?h)) ?h)"
        by (rule bootstrap_app_failed [OF assms])
      have "trace (snd (bootstrap w s)) = trace s1 @ ?H4 \<and> fst (bootstrap w s) \<noteq> Inr ()"
        by (simp add: b helpers_trace r)
      then show ?thesis using p4 by blast
    next
      case (Inr app)
      have ae: "app_exports w s1 = Some app"
        by (simp add: app_exports_def sd Inr)
      have ua: "user_aliases w s1 = (case aliases app of None \<Rightarrow> [] | Some al \<Rightarrow> al)"
        by (simp add: user_aliases_def ae)
      show ?thesis
      proof (cases "provider_list (run_intent s1) app")
        case pl: (Inr list)
        have cp: "chosen_providers w s1 = list"
          by (simp add: chosen_providers_def ae pl)
        show ?thesis
          using bootstrap_order_loaded [OF assms Some Inr pl] by (simp only: sd ua cp)
      next
        case pl: (Inl e)
        have falsy: "\<not> truthy (providers app) \<or> \<not> truthy (aceProviders app) \<or> \<not> truthy (commands app)"
          by (rule provider_list_failed [OF pl])
        note run = missing_export_run [OF assms Some Inr falsy]
        have t1: "trace s1 = trace s @ [TsRequire (join w [appRoot s, ''.adonisrc.json'']) (typescript s)]"
          by (rule loadRcFile_ok(1) [OF assms])
        have "trace (snd (bootstrap w s)) = trace s1 @ ?H4 \<and> fst (bootstrap w s) \<noteq> Inr ()"
          using run by (simp add: t1)
        then show ?thesis using p4 by blast
      qed
    qed
  qed
qed

text \<open>
  C1, amended. In every bootstrap run the events are an initial part of this sequence,
  and all of it when the bootstrap returns: \<^verbatim>\<open>.adonisrc.json\<close> is loaded, the container
  is created, the helpers are bound and aliased, the \<^verbatim>\<open>start/app\<close> module is loaded,
  each provider of the list is registered, each user alias is applied, each provider
  is booted, each autoload is registered, each selected preload is loaded. So the
  helpers are bound before any provider is registered or booted, the user aliases are
  applied after the registrations and before the first boot, and the autoloads are
  registered only after every provider has booted.
\<close>

theorem bootstrap_phase_order:
  "\<exists>evs. trace (snd (bootstrap w s)) = trace s @ evs
     \<and> prefix evs (run_events w s)
     \<and> (fst (bootstrap w s) = Inr () \<longrightarrow> evs = run_events w s)"
proof -
  let ?rc = "TsRequire (join w [appRoot s, ''.adonisrc.json'']) (typescript s)"
  obtain r s1 where l: "loadRcFile w s = (r, s1)" by (cases "loadRcFile w s")
  let ?canon = "bootstrap_events w s1 (start_dir s1) (user_aliases w s1) (chosen_providers w s1)"
  have re: "run_events w s = ?rc # ?canon"
    by (simp add: run_events_def l)
  show ?thesis
  proof (cases r)
    case (Inl e)
    have b: "bootstrap w s = (Inl e, s1)" using l Inl by (simp add: bootstrap_def)
    have "trace (snd (bootstrap w s)) = trace s @ [?rc] \<and> fst (bootstrap w s) \<noteq> Inr ()"
      using loadRcFile_failed [of w s e s1] l Inl by (simp add: b)
    moreover have "prefix [?rc] (run_events w s)"
      by (simp add: re)
    ultimately show ?thesis by blast
  next
    case (Inr u)
    then have l': "loadRcFile w s = (Inr (), s1)" using l by simp
    obtain evs where e: "trace (snd (bootstrap w s)) = trace s1 @ evs" "prefix evs ?canon"
      "fst (bootstrap w s) = Inr () \<longrightarrow> evs = ?canon"
      using bootstrap_order_resolved [OF l'] by blast
    have "trace (snd (bootstrap w s)) = trace s @ (?rc # evs)"
      using e(1) loadRcFile_ok(1) [OF l'] by simp
    moreover have "prefix (?rc # evs) (run_events w s)"
      using e(2) by (simp add: re)
    moreover have "fst (bootstrap w s) = Inr () \<longrightarrow> ?rc # evs = run_events w s"
      using e(3) by (simp add: re)
    ultimately show ?thesis by blast
  qed
qed

theorem bootstrap_phase_order_witness:
  "fst (bootstrap (sample_world (Inr sample_rc) sample_app)
          ((Ignitor ''/app'')\<lparr>run_intent := Some ''http''\<rparr>)) = Inr ()
   \<and> run_events (sample_world (Inr sample_rc) sample_app)
          ((Ignitor ''/app'')\<lparr>run_intent := Some ''http''\<rparr>) =
       [TsRequire ''/app/.adonisrc.json'' None, NewIoc (Some True),
        IocSingleton ''Adonis/Src/Helpers'', IocAlias ''Adonis/Src/Helpers'' ''Helpers'',
        TsRequire ''/app/start/app'' (Some True),
        UseProviders [''A'', ''B''], ProviderRegister ''A'', ProviderRegister ''B'',
        IocAlias ''My/Route'' ''Route'', ProviderBoot ''A'', ProviderBoot ''B'',
        IocAutoload ''/app/lib'' ''Lib'',
        TsRequire ''/app/start/routes'' (Some True), TsRequire ''/app/start/kernel'' (Some True)]
   \<and> trace (snd (bootstrap (sample_world (Inr sample_rc) sample_app)
          ((Ignitor ''/app'')\<lparr>run_intent := Some ''http''\<rparr>))) =
       [TsRequire ''/app/.adonisrc.json'' None, NewIoc (Some True),
        IocSingleton ''Adonis/Src/Helpers'', IocAlias ''Adonis/Src/Helpers'' ''Helpers'',
        TsRequire ''/app/start/app'' (Some True),
        UseProviders [''A'', ''B''], ProviderRegister ''A'', ProviderRegister ''B'',
        IocAlias ''My/Route'' ''Route'', ProviderBoot ''A'', ProviderBoot ''B'',
        IocAutoload ''/app/lib'' ''Lib'',
        TsRequire ''/app/start/routes'' (Some True), TsRequire ''/app/start/kernel'' (Some True)]"
proof -
  let ?w = "sample_world (Inr sample_rc) sample_app"
  let ?s0 = "(Ignitor ''/app'')\<lparr>run_intent := Some ''http''\<rparr>"
  have ok: "fst (bootstrap ?w ?s0) = Inr ()" by code_simp
  have canon: "run_events ?w ?s0 =
       [TsRequire ''/app/.adonisrc.json'' None, NewIoc (Some True),
        IocSingleton ''Adonis/Src/Helpers'', IocAlias ''Adonis/Src/Helpers'' ''Helpers'',
        TsRequire ''/app/start/app'' (Some True),
        UseProviders [''A'', ''B''], ProviderRegister ''A'', ProviderRegister ''B'',
        IocAlias ''My/Route'' ''Route'', ProviderBoot ''A'', ProviderBoot ''B'',
        IocAutoload ''/app/lib'' ''Lib'',
        TsRequire ''/app/start/routes'' (Some True), TsRequire ''/app/start/kernel'' (Some True)]"
    by code_simp
  have t0: "trace ?s0 = []" by (simp add: Ignitor_def)
  obtain evs where e: "trace (snd (bootstrap ?w ?s0)) = trace ?s0 @ evs"
    "fst (bootstrap ?w ?s0) = Inr () \<longrightarrow> evs = run_events ?w ?s0"
    using bootstrap_phase_order [of ?w ?s0] by blast
  have tr: "trace (snd (bootstrap ?w ?s0)) = run_events ?w ?s0"
    using e ok by (simp add: t0)
  show ?thesis
    using ok canon tr by simp
qed

text \<open>
  C1, as the claim states it, fails in its last part: \<^verbatim>\<open>_bootstrap\<close> calls
  \<^verbatim>\<open>_registerAutoloads\<close> after \<^verbatim>\<open>_bootProviders\<close> has returned, so the providers boot
  while no autoload is registered.
\<close>

theorem autoloads_after_boot_counterexample:
  "trace (snd (bootstrap (sample_world (Inl ENOENT) sample_app)
                 ((Ignitor ''/app'')\<lparr>run_intent := Some ''http''\<rparr>))) ! 9 = ProviderBoot ''A''
   \<and> trace (snd (bootstrap (sample_world (Inl ENOENT) sample_app)
                 ((Ignitor ''/app'')\<lparr>run_intent := Some ''http''\<rparr>))) ! 10 = ProviderBoot ''B''
   \<and> trace (snd (bootstrap (sample_world (Inl ENOENT) sample_app)
                 ((Ignitor ''/app'')\<lparr>run_intent := Some ''http''\<rparr>))) ! 11
        = IocAutoload ''/app/app'' ''App''
   \<and> IocAutoload ''/app/app'' ''App''
        \<notin> set (take 11 (trace (snd (bootstrap (sample_world (Inl ENOENT) sample_app)
                 ((Ignitor ''/app'')\<lparr>run_intent := Some ''http''\<rparr>)))))"
  by (simp add: sample_bootstrap_trace)

end
